theory Spec2Isabelle
  imports Complex_Main "HOL-Library.Log_Nat"
begin

section \<open>Hotel booking application (index.py): validators, pricing and the booking form\<close>

text \<open>
  The development embeds the functions of \<^verbatim>\<open>index.py\<close> that carry the booking rules:
  \<^verbatim>\<open>HotelDataManager.load_data\<close> and \<^verbatim>\<open>save_data\<close>, \<^verbatim>\<open>validate_email\<close>,
  \<^verbatim>\<open>validate_phone\<close>, \<^verbatim>\<open>calculate_booking_amount\<close> and the body of
  \<^verbatim>\<open>booking_system\<close>. Python values are modelled as follows.
  \<^item> \<^verbatim>\<open>int\<close> is \<^typ>\<open>int\<close> (unbounded).
  \<^item> \<^verbatim>\<open>float\<close> is an IEEE 754 binary64 number. A finite double is represented by
    its exact value, a \<^typ>\<open>rat\<close>; every arithmetic operation computes the exact result
    and rounds it to the nearest double, ties to even.
  \<^item> \<^verbatim>\<open>str\<close>: a text that the user types (the text inputs of the form, and the record
    fields that store them) is the list of its Unicode code points. The texts that the
    program itself writes and compares (room numbers, room types, statuses, identifiers,
    time stamps and messages) are ASCII and are given as values of \<^typ>\<open>string\<close>.
  \<^item> A raised exception is the left summand of a result of type \<open>exn + 'a\<close>.
  \<^item> The JSON files are an explicit store that is passed in and returned; the calls of
    \<^verbatim>\<open>st.info\<close>, \<^verbatim>\<open>st.error\<close>, \<^verbatim>\<open>st.success\<close> and \<^verbatim>\<open>st.balloons\<close> are returned as
    a list of messages in the order of the calls.
\<close>

subsection \<open>Exceptions and numbers\<close>

datatype exn = OSError | JSONDecodeError | OverflowError | UnboundLocalError

datatype pynum = PyInt int | PyFloat rat

fun num_value :: "pynum \<Rightarrow> rat" where
  "num_value (PyInt i) = of_int i"
| "num_value (PyFloat x) = x"

definition bind_exn :: "exn + 'a \<Rightarrow> ('a \<Rightarrow> exn + 'b) \<Rightarrow> exn + 'b" where
  "bind_exn m f = (case m of Inl e \<Rightarrow> Inl e | Inr x \<Rightarrow> f x)"

text \<open>Rounding of a rational to the nearest integer, ties to the even one.\<close>

definition rhe :: "rat \<Rightarrow> int" where
  "rhe q = (let f = \<lfloor>q\<rfloor>; d = q - of_int f
            in if d < 1/2 then f else if 1/2 < d then f + 1 else if even f then f else f + 1)"

text \<open>
  \<open>dexp x\<close> is the exponent of the unit in the last place of a double near \<open>x\<close>: the
  integer \<open>e\<close> with \<open>2^52 \<le> |x| / 2^e < 2^53\<close>. It is computed from the bit lengths
  of numerator and denominator, which locate it up to one.
\<close>

definition dexp :: "rat \<Rightarrow> int" where
  "dexp x = (let (a, b) = quotient_of \<bar>x\<bar>; s = bitlen a - bitlen b - 53
             in if \<bar>x\<bar> < power_int 2 (s + 53) then s else s + 1)"

text \<open>
  The nearest double of a rational (round to nearest, ties to even, 53 bit significand).
  The exponent range of binary64 is not clamped here: the only place where this program
  can leave it is the conversion of a large \<^verbatim>\<open>int\<close>, which \<open>float_of_int\<close> checks.
\<close>

definition round_to_double :: "rat \<Rightarrow> rat" where
  "round_to_double x =
     (if x = 0 then 0 else of_int (rhe (x / power_int 2 (dexp x))) * power_int 2 (dexp x))"

text \<open>A float literal of the source text denotes the double nearest to its decimal value.\<close>

definition float_literal :: "rat \<Rightarrow> rat" where
  "float_literal q = round_to_double q"

text \<open>
  Conversion \<^verbatim>\<open>int\<close> to \<^verbatim>\<open>float\<close>, as in mixed arithmetic: correctly rounded, and
  \<^verbatim>\<open>OverflowError\<close> ("int too large to convert to float") when the rounded value
  does not fit.
\<close>

definition float_of_int :: "int \<Rightarrow> exn + rat" where
  "float_of_int n =
     (let r = round_to_double (of_int n)
      in if 2 ^ 1024 \<le> \<bar>r\<bar> then Inl OverflowError else Inr r)"

definition to_float :: "pynum \<Rightarrow> exn + rat" where
  "to_float v = (case v of PyInt i \<Rightarrow> float_of_int i | PyFloat x \<Rightarrow> Inr x)"

text \<open>
  \<^verbatim>\<open>a - b\<close> and \<^verbatim>\<open>a * b\<close>: exact on two ints; otherwise both operands are converted
  to float and the exact result is rounded.
\<close>

definition py_sub :: "pynum \<Rightarrow> pynum \<Rightarrow> exn + pynum" where
  "py_sub a b =
     (case (a, b) of
        (PyInt i, PyInt j) \<Rightarrow> Inr (PyInt (i - j))
      | _ \<Rightarrow> bind_exn (to_float a) (\<lambda>x. bind_exn (to_float b) (\<lambda>y.
               Inr (PyFloat (round_to_double (x - y))))))"

definition py_mul :: "pynum \<Rightarrow> pynum \<Rightarrow> exn + pynum" where
  "py_mul a b =
     (case (a, b) of
        (PyInt i, PyInt j) \<Rightarrow> Inr (PyInt (i * j))
      | _ \<Rightarrow> bind_exn (to_float a) (\<lambda>x. bind_exn (to_float b) (\<lambda>y.
               Inr (PyFloat (round_to_double (x * y))))))"

text \<open>
  \<^verbatim>\<open>round(v, 2)\<close>: an int is returned unchanged; a float is rounded to two decimal
  places on its exact value (ties to even) and the decimal result is converted back to
  the nearest double.
\<close>

definition py_round2 :: "pynum \<Rightarrow> pynum" where
  "py_round2 v =
     (case v of
        PyInt i \<Rightarrow> PyInt i
      | PyFloat x \<Rightarrow> PyFloat (round_to_double (of_int (rhe (x * 100)) / 100)))"

subsection \<open>Strings and regular expressions\<close>

text \<open>
  A character of a Python string is a Unicode code point, a number from 0 to 0x10FFFF
  (a larger number stands for no character and belongs to no class below). \<open>ord c\<close> is
  the code point of an ASCII or Latin-1 character and \<open>str s\<close> the Python string that a
  literal denotes.
\<close>

type_synonym codepoint = nat

type_synonym unicode = "codepoint list"

definition ord :: "char \<Rightarrow> codepoint" where
  "ord c = of_char c"

definition str :: "string \<Rightarrow> unicode" where
  "str s = map ord s"

text \<open>
  \<^verbatim>\<open>str.isspace\<close>, which decides what \<^verbatim>\<open>str.strip\<close> removes and what the class \<^verbatim>\<open>\s\<close>
  of a \<^verbatim>\<open>str\<close> pattern matches: the ASCII white space and separators 9 to 13 and 28 to 32,
  NEL, the no-break space, the Ogham space mark, the spaces U+2000 to U+200A, the line and
  paragraph separators, the narrow no-break space, the medium mathematical space and the
  ideographic space.
\<close>

definition isspace :: "codepoint \<Rightarrow> bool" where
  "isspace c = (c \<in> set
     [9, 10, 11, 12, 13, 28, 29, 30, 31, 32, 133, 160, 5760,
      8192, 8193, 8194, 8195, 8196, 8197, 8198, 8199, 8200, 8201, 8202,
      8232, 8233, 8239, 8287, 12288])"

text \<open>
  The class \<^verbatim>\<open>\d\<close> of a \<^verbatim>\<open>str\<close> pattern compiled without the ASCII flag: every character
  with the Unicode property of a decimal digit (\<^verbatim>\<open>str.isdecimal\<close>, general category Nd),
  not only \<^verbatim>\<open>0\<close> to \<^verbatim>\<open>9\<close>. In the Unicode Character Database 14.0, the one of CPython
  3.11, these are 66 runs of ten consecutive code points, the digits zero to nine of one
  script each; \<open>decimal_zeros\<close> lists the zero of every run (ASCII, Arabic-Indic,
  Extended Arabic-Indic, NKo, Devanagari, Bengali and so on, up to the segmented digits).
\<close>

definition decimal_zeros :: "codepoint list" where
  "decimal_zeros =
     [48, 1632, 1776, 1984, 2406, 2534, 2662, 2790, 2918, 3046, 3174, 3302, 3430, 3558,
      3664, 3792, 3872, 4160, 4240, 6112, 6160, 6470, 6608, 6784, 6800, 6992, 7088, 7232,
      7248, 42528, 43216, 43264, 43472, 43504, 43600, 44016, 65296, 66720, 68912, 69734,
      69872, 69942, 70096, 70384, 70736, 70864, 71248, 71360, 71472, 71904, 72016, 72784,
      73040, 73120, 92768, 92864, 93008, 120782, 120792, 120802, 120812, 120822, 123200,
      123632, 125264, 130032]"

definition isdecimal :: "codepoint \<Rightarrow> bool" where
  "isdecimal c = list_ex (\<lambda>z. z \<le> c \<and> c < z + 10) decimal_zeros"

definition strip :: "unicode \<Rightarrow> unicode" where
  "strip s = rev (dropWhile isspace (rev (dropWhile isspace s)))"

text \<open>
  The fragment of Python's regular expressions that the two patterns use. A character
  set lists single characters, ranges and the classes \<^verbatim>\<open>\d\<close> and \<^verbatim>\<open>\s\<close>.
\<close>

datatype char_item = Chr codepoint | Range codepoint codepoint | Digit | Space

fun item_matches :: "char_item \<Rightarrow> codepoint \<Rightarrow> bool" where
  "item_matches (Chr a) c = (c = a)"
| "item_matches (Range a b) c = (a \<le> c \<and> c \<le> b)"
| "item_matches Digit c = isdecimal c"
| "item_matches Space c = isspace c"

definition in_set :: "char_item list \<Rightarrow> codepoint \<Rightarrow> bool" where
  "in_set items c = list_ex (\<lambda>i. item_matches i c) items"

datatype regex =
    Bol
  | Eol
  | Lit codepoint
  | CharSet "char_item list"
  | Seq regex regex
  | Opt regex
  | Plus regex
  | Repeat nat regex
  | AtLeast nat regex

text \<open>
  The matcher explores what a backtracking engine explores: \<open>rests subj r t\<close> lists
  every suffix of \<open>t\<close> that can remain after \<open>r\<close> has matched a prefix of \<open>t\<close>, greedy
  choices first; \<open>subj\<close> is the whole subject string. \<^verbatim>\<open>^\<close> matches at the start of the
  subject. \<^verbatim>\<open>$\<close> (without the MULTILINE flag) matches at the end of the subject and
  also just before a newline (code point 10) that is the last character of the subject.
\<close>

fun rep_iter :: "(unicode \<Rightarrow> unicode list) \<Rightarrow> nat \<Rightarrow> unicode \<Rightarrow> unicode list" where
  "rep_iter f 0 t = [t]"
| "rep_iter f (Suc n) t = concat (map (rep_iter f n) (f t))"

text \<open>
  One or more repetitions. Each further repetition is tried only after one that consumed
  input, so the length of the text bounds the depth.
\<close>

fun plus_iter :: "(unicode \<Rightarrow> unicode list) \<Rightarrow> nat \<Rightarrow> unicode \<Rightarrow> unicode list" where
  "plus_iter f 0 t = f t"
| "plus_iter f (Suc n) t =
     concat (map (\<lambda>u. if length u < length t then plus_iter f n u else []) (f t)) @ f t"

definition star_iter :: "(unicode \<Rightarrow> unicode list) \<Rightarrow> unicode \<Rightarrow> unicode list" where
  "star_iter f t = plus_iter f (length t) t @ [t]"

primrec rests :: "unicode \<Rightarrow> regex \<Rightarrow> unicode \<Rightarrow> unicode list" where
  "rests subj Bol = (\<lambda>t. if length t = length subj then [t] else [])"
| "rests subj Eol = (\<lambda>t. if t = [] \<or> t = [10] then [t] else [])"
| "rests subj (Lit a) = (\<lambda>t. case t of [] \<Rightarrow> [] | c # u \<Rightarrow> if c = a then [u] else [])"
| "rests subj (CharSet items) =
     (\<lambda>t. case t of [] \<Rightarrow> [] | c # u \<Rightarrow> if in_set items c then [u] else [])"
| "rests subj (Seq r1 r2) = (\<lambda>t. concat (map (rests subj r2) (rests subj r1 t)))"
| "rests subj (Opt r) = (\<lambda>t. rests subj r t @ [t])"
| "rests subj (Plus r) = (\<lambda>t. plus_iter (rests subj r) (length t) t)"
| "rests subj (Repeat n r) = (\<lambda>t. rep_iter (rests subj r) n t)"
| "rests subj (AtLeast n r) =
     (\<lambda>t. concat (map (star_iter (rests subj r)) (rep_iter (rests subj r) n t)))"

text \<open>\<^verbatim>\<open>re.match(pattern, s) is not None\<close>: some way of matching at position 0 exists.\<close>

definition re_match :: "regex \<Rightarrow> unicode \<Rightarrow> bool" where
  "re_match pattern s = (rests s pattern s \<noteq> [])"

subsection \<open>The validators\<close>

definition letters :: "char_item list" where
  "letters = [Range (ord CHR ''a'') (ord CHR ''z''), Range (ord CHR ''A'') (ord CHR ''Z'')]"

definition alnum :: "char_item list" where
  "alnum = letters @ [Range (ord CHR ''0'') (ord CHR ''9'')]"

text \<open>\<^verbatim>\<open>^[a-zA-Z0-9._%+-]+@[a-zA-Z0-9.-]+\.[a-zA-Z]{2,}$\<close>\<close>

definition email_pattern :: regex where
  "email_pattern =
     Seq Bol
    (Seq (Plus (CharSet (alnum @ [Chr (ord CHR ''.''), Chr (ord CHR ''_''), Chr (ord CHR ''%''),
                                  Chr (ord CHR ''+''), Chr (ord CHR ''-'')])))
    (Seq (Lit (ord CHR ''@''))
    (Seq (Plus (CharSet (alnum @ [Chr (ord CHR ''.''), Chr (ord CHR ''-'')])))
    (Seq (Lit (ord CHR ''.''))
    (Seq (AtLeast 2 (CharSet letters))
     Eol)))))"

definition validate_email :: "unicode \<Rightarrow> bool" where
  "validate_email email = re_match email_pattern email"

text \<open>\<^verbatim>\<open>^(\+91[-\s]?)?[6-9]\d{9}$\<close>\<close>

definition phone_pattern :: regex where
  "phone_pattern =
     Seq Bol
    (Seq (Opt (Seq (Lit (ord CHR ''+'')) (Seq (Lit (ord CHR ''9'')) (Seq (Lit (ord CHR ''1''))
            (Opt (CharSet [Chr (ord CHR ''-''), Space]))))))
    (Seq (CharSet [Range (ord CHR ''6'') (ord CHR ''9'')])
    (Seq (Repeat 9 (CharSet [Digit]))
     Eol)))"

definition validate_phone :: "unicode \<Rightarrow> bool" where
  "validate_phone phone = re_match phone_pattern (strip phone)"

subsection \<open>The pricing function\<close>

definition base_prices :: "string \<rightharpoonup> int" where
  "base_prices = map_of
     [(''Standard'', 2500), (''Deluxe'', 4000), (''Suite'', 7500), (''Presidential'', 15000)]"

definition calculate_booking_amount :: "string \<Rightarrow> int \<Rightarrow> int \<Rightarrow> exn + pynum" where
  "calculate_booking_amount room_type nights guests =
     (let base_price = (case base_prices room_type of Some p \<Rightarrow> p | None \<Rightarrow> 2500);
          extra_guest_charge = max 0 (guests - 2) * 500 * nights;
          discount = (if nights \<ge> 7 then PyFloat (float_literal (15 / 100))
                      else if nights \<ge> 3 then PyFloat (float_literal (10 / 100))
                      else PyInt 0);
          total = base_price * nights + extra_guest_charge
      in bind_exn (py_sub (PyInt 1) discount) (\<lambda>factor.
         bind_exn (py_mul (PyInt total) factor) (\<lambda>total.
         Inr (py_round2 total))))"

subsection \<open>The data store\<close>

text \<open>
  A JSON file of the data directory is absent, present but not readable, present with
  text that is not JSON, or holds a list of records. The model is typed: a stored list
  holds records with the keys that the application writes.
\<close>

datatype 'a json_file = Absent | Unreadable | Malformed | Stored "'a list"

text \<open>
  What the page shows: \<^verbatim>\<open>st.error(text)\<close>, \<^verbatim>\<open>st.info\<close> with the previewed amount
  and number of nights, \<^verbatim>\<open>st.success(text)\<close> and \<^verbatim>\<open>st.balloons()\<close>. The texts are
  given without their pictographs, and the error of a failed load without the text of
  the exception.
\<close>

datatype message = Error string | Info pynum int | Success string | Balloons

definition os_path_exists :: "'a json_file \<Rightarrow> bool" where
  "os_path_exists f = (case f of Absent \<Rightarrow> False | _ \<Rightarrow> True)"

text \<open>\<^verbatim>\<open>open(file_path, 'r')\<close> followed by \<^verbatim>\<open>json.load(f)\<close>.\<close>

definition json_load :: "'a json_file \<Rightarrow> exn + 'a list" where
  "json_load f =
     (case f of
        Absent \<Rightarrow> Inl OSError
      | Unreadable \<Rightarrow> Inl OSError
      | Malformed \<Rightarrow> Inl JSONDecodeError
      | Stored xs \<Rightarrow> Inr xs)"

text \<open>
  \<^verbatim>\<open>load_data\<close>: the \<^verbatim>\<open>try\<close> block either returns the parsed list, or falls through
  (the file does not exist), or raises; \<^verbatim>\<open>except Exception\<close> reports the error, and the
  function then returns the empty list. The result carries the messages shown.
\<close>

definition load_data :: "'a json_file \<Rightarrow> exn + ('a list \<times> message list)" where
  "load_data f =
     (case (if os_path_exists f then bind_exn (json_load f) (\<lambda>xs. Inr (Some xs)) else Inr None) of
        Inl e \<Rightarrow> Inr ([], [Error ''Error loading data''])
      | Inr (Some xs) \<Rightarrow> Inr (xs, [])
      | Inr None \<Rightarrow> Inr ([], []))"

text \<open>
  \<^verbatim>\<open>save_data\<close> overwrites the file with the list. The model takes the write to
  succeed.
\<close>

definition save_data :: "'a list \<Rightarrow> 'a json_file" where
  "save_data data = Stored data"

subsection \<open>Records, dates and the clock\<close>

text \<open>
  A \<^verbatim>\<open>datetime.date\<close> is its proleptic Gregorian ordinal, which Python bounds by
  \<^verbatim>\<open>date.min\<close> (ordinal 1) and \<^verbatim>\<open>date.max\<close> (ordinal 3652059).
\<close>

typedef date = "{1 .. 3652059 :: int}"
  by auto

text \<open>\<^verbatim>\<open>(b - a).days\<close>\<close>

definition days_between :: "date \<Rightarrow> date \<Rightarrow> int" where
  "days_between a b = Rep_date b - Rep_date a"

text \<open>The value of \<^verbatim>\<open>st.number_input("Number of Guests", min_value=1, max_value=6, value=2)\<close>.\<close>

typedef guest_count = "{1 .. 6 :: int}"
  by auto

record datetime =
  year :: nat
  month :: nat
  day :: nat
  hour :: nat
  minute :: nat
  second :: nat
  microsecond :: nat

definition digit :: "nat \<Rightarrow> char" where
  "digit n = ''0123456789'' ! (n mod 10)"

definition pad2 :: "nat \<Rightarrow> string" where
  "pad2 n = [digit (n div 10), digit n]"

definition pad4 :: "nat \<Rightarrow> string" where
  "pad4 n = [digit (n div 1000), digit (n div 100), digit (n div 10), digit n]"

text \<open>\<^verbatim>\<open>strftime('%Y%m%d%H%M%S')\<close>\<close>

definition strftime_compact :: "datetime \<Rightarrow> string" where
  "strftime_compact t =
     pad4 (year t) @ pad2 (month t) @ pad2 (day t) @ pad2 (hour t) @ pad2 (minute t) @ pad2 (second t)"

text \<open>\<^verbatim>\<open>strftime("%Y-%m-%d %H:%M:%S")\<close>\<close>

definition strftime_iso :: "datetime \<Rightarrow> string" where
  "strftime_iso t =
     pad4 (year t) @ ''-'' @ pad2 (month t) @ ''-'' @ pad2 (day t) @ '' '' @
     pad2 (hour t) @ '':'' @ pad2 (minute t) @ '':'' @ pad2 (second t)"

text \<open>The three readings of \<^verbatim>\<open>datetime.now()\<close> that one submission makes, in order.\<close>

record clock =
  now_booking_id :: datetime
  now_booking_date :: datetime
  now_registration :: datetime

record room =
  room_number :: string
  room_type :: string
  price :: int
  capacity :: int
  status :: string

record customer =
  name :: unicode
  email :: unicode
  phone :: unicode
  address :: unicode
  registration_date :: string

text \<open>
  The booking dictionary. Its keys \<^verbatim>\<open>room_number\<close>, \<^verbatim>\<open>room_type\<close> and \<^verbatim>\<open>status\<close> are
  prefixed here, since a room has fields of these names; \<^verbatim>\<open>check_in\<close> and
  \<^verbatim>\<open>check_out\<close> hold the dates, which the source writes as their ISO text.
\<close>

record booking =
  booking_id :: string
  customer_name :: unicode
  customer_email :: unicode
  customer_phone :: unicode
  customer_address :: unicode
  id_proof :: string
  id_number :: unicode
  booking_room_number :: string
  booking_room_type :: string
  guests :: int
  check_in :: date
  check_out :: date
  nights :: int
  total_amount :: pynum
  special_requests :: unicode
  booking_date :: string
  booking_status :: string

text \<open>
  The values of the form's widgets when the script runs: the text inputs and text areas
  return what the user typed, the two select boxes one of their options.
\<close>

record form =
  form_customer_name :: unicode
  form_customer_email :: unicode
  form_customer_phone :: unicode
  form_customer_address :: unicode
  form_id_proof :: string
  form_id_number :: unicode
  form_room_type :: string
  form_guests :: guest_count
  form_check_in :: date
  form_check_out :: date
  form_special_requests :: unicode

record store =
  bookings_file :: "booking json_file"
  customers_file :: "customer json_file"
  rooms_file :: "room json_file"

subsection \<open>The booking form\<close>

text \<open>
  Lines 273 to 277: the price preview. Dates are truthy, so the guard is the room type
  being a non-empty string; \<^verbatim>\<open>nights\<close> and \<^verbatim>\<open>total_amount\<close> are bound only on the
  paths that assign them.
\<close>

definition price_preview :: "form \<Rightarrow> exn + ((int option \<times> pynum option) \<times> message list)" where
  "price_preview f =
     (if form_room_type f \<noteq> [] then
        (let nights = days_between (form_check_in f) (form_check_out f) in
         if nights > 0 then
           bind_exn (calculate_booking_amount (form_room_type f) nights (Rep_guest_count (form_guests f)))
             (\<lambda>total_amount. Inr ((Some nights, Some total_amount), [Info total_amount nights]))
         else Inr ((Some nights, None), []))
      else Inr ((None, None), []))"

text \<open>Lines 283 to 292: every check appends its own message.\<close>

definition validation_errors :: "form \<Rightarrow> string list" where
  "validation_errors f =
     (if strip (form_customer_name f) = [] then [''Customer name is required''] else []) @
     (if strip (form_customer_email f) = [] \<or> \<not> validate_email (form_customer_email f)
      then [''Valid email address is required''] else []) @
     (if strip (form_customer_phone f) = [] \<or> \<not> validate_phone (form_customer_phone f)
      then [''Valid phone number is required''] else []) @
     (if Rep_date (form_check_out f) \<le> Rep_date (form_check_in f)
      then [''Check-out date must be after check-in date''] else [])"

text \<open>Line 229.\<close>

definition available_rooms :: "room list \<Rightarrow> room list" where
  "available_rooms rooms = filter (\<lambda>r. status r = ''Available'') rooms"

text \<open>Line 299: the first available room of the requested type, or \<^verbatim>\<open>None\<close>.\<close>

definition select_room :: "room list \<Rightarrow> string \<Rightarrow> room option" where
  "select_room rooms rt = find (\<lambda>r. room_type r = rt) (available_rooms rooms)"

definition make_booking :: "clock \<Rightarrow> form \<Rightarrow> room \<Rightarrow> int \<Rightarrow> pynum \<Rightarrow> booking" where
  "make_booking clk f selected_room n amount =
     \<lparr> booking_id = ''BK'' @ strftime_compact (now_booking_id clk),
       customer_name = form_customer_name f,
       customer_email = form_customer_email f,
       customer_phone = form_customer_phone f,
       customer_address = form_customer_address f,
       id_proof = form_id_proof f,
       id_number = form_id_number f,
       booking_room_number = room_number selected_room,
       booking_room_type = form_room_type f,
       guests = Rep_guest_count (form_guests f),
       check_in = form_check_in f,
       check_out = form_check_out f,
       nights = n,
       total_amount = amount,
       special_requests = form_special_requests f,
       booking_date = strftime_iso (now_booking_date clk),
       booking_status = ''Confirmed'' \<rparr>"

definition make_customer :: "clock \<Rightarrow> form \<Rightarrow> customer" where
  "make_customer clk f =
     \<lparr> name = form_customer_name f,
       email = form_customer_email f,
       phone = form_customer_phone f,
       address = form_customer_address f,
       registration_date = strftime_iso (now_registration clk) \<rparr>"

text \<open>Lines 329 to 331: the loop over all rooms, which has no \<^verbatim>\<open>break\<close>.\<close>

definition occupy :: "room list \<Rightarrow> room \<Rightarrow> room list" where
  "occupy rooms selected_room =
     map (\<lambda>room. if room_number room = room_number selected_room
                  then room\<lparr>status := ''Occupied''\<rparr> else room) rooms"

text \<open>Lines 303 to 348, once a room is selected and the two variables are bound.\<close>

definition confirm_booking ::
  "clock \<Rightarrow> form \<Rightarrow> room list \<Rightarrow> room \<Rightarrow> int \<Rightarrow> pynum \<Rightarrow> store \<Rightarrow> exn + (message list \<times> store)" where
  "confirm_booking clk f rooms selected_room n amount st =
     (let b = make_booking clk f selected_room n amount in
      bind_exn (load_data (bookings_file st)) (\<lambda>(bookings, shown1).
      let st1 = st\<lparr>bookings_file := save_data (bookings @ [b])\<rparr>;
          st2 = st1\<lparr>rooms_file := save_data (occupy rooms selected_room)\<rparr>
      in bind_exn (load_data (customers_file st2)) (\<lambda>(customers, shown2).
      let st3 = (if \<not> list_ex (\<lambda>c. email c = form_customer_email f) customers
                 then st2\<lparr>customers_file := save_data (customers @ [make_customer clk f])\<rparr>
                 else st2)
      in Inr (shown1 @ shown2 @ [Success (''Booking confirmed! Booking ID: '' @ booking_id b), Balloons],
              st3))))"

text \<open>
  The form body with the submit button pressed (lines 273 to 348). \<open>rooms\<close> is the
  snapshot of the rooms collection that \<^verbatim>\<open>booking_system\<close> loaded at line 228. A name
  that is read before it was bound raises \<^verbatim>\<open>UnboundLocalError\<close>.
\<close>

definition submit_booking :: "clock \<Rightarrow> form \<Rightarrow> room list \<Rightarrow> store \<Rightarrow> exn + (message list \<times> store)" where
  "submit_booking clk f rooms st =
     bind_exn (price_preview f) (\<lambda>((nights, total_amount), shown).
       let errors = validation_errors f in
       if errors \<noteq> [] then Inr (shown @ map Error errors, st)
       else (case select_room rooms (form_room_type f) of
               None \<Rightarrow> Inr (shown, st)
             | Some selected_room \<Rightarrow>
                 (case (nights, total_amount) of
                    (Some n, Some amount) \<Rightarrow>
                      bind_exn (confirm_booking clk f rooms selected_room n amount st)
                        (\<lambda>(shown', st'). Inr (shown @ shown', st'))
                  | _ \<Rightarrow> Inl UnboundLocalError)))"



text \<open>
  Lines 110 to 119 and 393 to 397: \<^verbatim>\<open>initialize_rooms\<close> writes seven rooms of four types, and
  the program afterwards changes nothing but the status of a room. So the type of every
  room of a rooms collection is one of the four.
\<close>

definition room_types :: "string list" where
  "room_types = [''Standard'', ''Deluxe'', ''Suite'', ''Presidential'']"

definition well_typed :: "room list \<Rightarrow> bool" where
  "well_typed rooms = list_all (\<lambda>r. room_type r \<in> set room_types) rooms"

text \<open>The page function: it loads the rooms and stops when none is available.\<close>

definition booking_system :: "clock \<Rightarrow> form \<Rightarrow> bool \<Rightarrow> store \<Rightarrow> exn + (message list \<times> store)" where
  "booking_system clk f submitted st =
     bind_exn (load_data (rooms_file st)) (\<lambda>(rooms, shown0).
       if available_rooms rooms = [] then Inr (shown0 @ [Error ''No rooms available for booking!''], st)
       else if submitted then
         bind_exn (submit_booking clk f rooms st) (\<lambda>(shown, st'). Inr (shown0 @ shown, st'))
       else bind_exn (price_preview f) (\<lambda>(bound, shown). Inr (shown0 @ shown, st)))"

subsection \<open>The pricing rule as the specification words it\<close>

text \<open>
  The specification's formula, in exact rational arithmetic: the base price of the room
  type (2500 for a type that is not in the table), 500 per night for every guest beyond
  two, a discount of 15 percent from seven nights and of 10 percent from three, and the
  result rounded to two decimal places.
\<close>

definition spec_base_price :: "string \<Rightarrow> int" where
  "spec_base_price rt =
     (if rt = ''Standard'' then 2500 else if rt = ''Deluxe'' then 4000
      else if rt = ''Suite'' then 7500 else if rt = ''Presidential'' then 15000 else 2500)"

definition spec_discount :: "int \<Rightarrow> rat" where
  "spec_discount n = (if n \<ge> 7 then 15 / 100 else if n \<ge> 3 then 10 / 100 else 0)"

definition round_2dp :: "rat \<Rightarrow> rat" where
  "round_2dp q = of_int (round (q * 100)) / 100"

definition undiscounted :: "string \<Rightarrow> int \<Rightarrow> int \<Rightarrow> int" where
  "undiscounted rt n g = spec_base_price rt * n + max 0 (g - 2) * 500 * n"

definition compute_price_spec :: "string \<Rightarrow> int \<Rightarrow> int \<Rightarrow> rat" where
  "compute_price_spec rt n g = round_2dp (of_int (undiscounted rt n g) * (1 - spec_discount n))"


subsection \<open>Notions used to state the properties\<close>

text \<open>
  The number that the pricing function returns while the undiscounted total is below
  \<open>2^53\<close>: a float from three nights, an int below.
\<close>

definition exact_amount :: "string \<Rightarrow> int \<Rightarrow> int \<Rightarrow> pynum" where
  "exact_amount rt n g =
     (if 3 \<le> n then PyFloat (compute_price_spec rt n g) else PyInt (undiscounted rt n g))"

text \<open>
  What \<^verbatim>\<open>load_data\<close> returns for a file, and what it shows while doing so.
\<close>

definition records :: "'a json_file \<Rightarrow> 'a list" where
  "records f = (case load_data f of Inr (xs, shown) \<Rightarrow> xs | Inl e \<Rightarrow> [])"

definition load_shown :: "'a json_file \<Rightarrow> message list" where
  "load_shown f = (case load_data f of Inr (xs, shown) \<Rightarrow> shown | Inl e \<Rightarrow> [])"

text \<open>
  The four checks of the form, as the specification words them: a name that is not empty
  after trimming, an email and a phone that are not blank and pass their validator, and a
  check-out date after the check-in date.
\<close>

definition name_present :: "form \<Rightarrow> bool" where
  "name_present f = (strip (form_customer_name f) \<noteq> [])"

definition email_acceptable :: "form \<Rightarrow> bool" where
  "email_acceptable f =
     (strip (form_customer_email f) \<noteq> [] \<and> validate_email (form_customer_email f))"

definition phone_acceptable :: "form \<Rightarrow> bool" where
  "phone_acceptable f =
     (strip (form_customer_phone f) \<noteq> [] \<and> validate_phone (form_customer_phone f))"

definition dates_ordered :: "form \<Rightarrow> bool" where
  "dates_ordered f = (Rep_date (form_check_in f) < Rep_date (form_check_out f))"

definition validations_pass :: "form \<Rightarrow> bool" where
  "validations_pass f = (name_present f \<and> email_acceptable f \<and> phone_acceptable f \<and> dates_ordered f)"


definition is_success :: "message \<Rightarrow> bool" where
  "is_success m = (case m of Success text \<Rightarrow> True | _ \<Rightarrow> False)"

definition booking_confirmed :: "message list \<Rightarrow> bool" where
  "booking_confirmed shown = list_ex is_success shown"

text \<open>
  What the price preview shows for the widget values of a form.
\<close>

definition preview_shown :: "form \<Rightarrow> message list" where
  "preview_shown f =
     (let n = days_between (form_check_in f) (form_check_out f) in
      if form_room_type f \<noteq> [] \<and> 0 < n
      then [Info (exact_amount (form_room_type f) n (Rep_guest_count (form_guests f))) n] else [])"

text \<open>
  The booking record that a confirmed submission writes.
\<close>

definition new_booking :: "clock \<Rightarrow> form \<Rightarrow> room \<Rightarrow> booking" where
  "new_booking clk f sel =
     (let n = days_between (form_check_in f) (form_check_out f) in
      make_booking clk f sel n (exact_amount (form_room_type f) n (Rep_guest_count (form_guests f))))"

subsection \<open>Example data\<close>

text \<open>
  Example data: the seven rooms that \<^verbatim>\<open>initialize_rooms\<close> writes at first run, a store
  right after that, a form that passes all checks and a clock.
\<close>

definition default_rooms :: "room list" where
  "default_rooms =
     [\<lparr>room_number = ''101'', room_type = ''Standard'', price = 2500, capacity = 2, status = ''Available''\<rparr>,
      \<lparr>room_number = ''102'', room_type = ''Standard'', price = 2500, capacity = 2, status = ''Available''\<rparr>,
      \<lparr>room_number = ''201'', room_type = ''Deluxe'', price = 4000, capacity = 3, status = ''Available''\<rparr>,
      \<lparr>room_number = ''202'', room_type = ''Deluxe'', price = 4000, capacity = 3, status = ''Available''\<rparr>,
      \<lparr>room_number = ''301'', room_type = ''Suite'', price = 7500, capacity = 4, status = ''Available''\<rparr>,
      \<lparr>room_number = ''302'', room_type = ''Suite'', price = 7500, capacity = 4, status = ''Available''\<rparr>,
      \<lparr>room_number = ''401'', room_type = ''Presidential'', price = 15000, capacity = 6, status = ''Available''\<rparr>]"

definition fresh_store :: store where
  "fresh_store = \<lparr>bookings_file = Absent, customers_file = Absent, rooms_file = Stored default_rooms\<rparr>"

definition example_form :: form where
  "example_form =
     \<lparr>form_customer_name = str ''Asha Rao'',
      form_customer_email = str ''a@b.co'',
      form_customer_phone = str ''9876543210'',
      form_customer_address = str ''12 Lake Road'',
      form_id_proof = ''Passport'',
      form_id_number = str ''P1234567'',
      form_room_type = ''Standard'',
      form_guests = Abs_guest_count 2,
      form_check_in = Abs_date 739000,
      form_check_out = Abs_date 739001,
      form_special_requests = []\<rparr>"

definition noon :: datetime where
  "noon = \<lparr>year = 2025, month = 3, day = 14, hour = 12, minute = 0, second = 0, microsecond = 0\<rparr>"

definition example_clock :: clock where
  "example_clock = \<lparr>now_booking_id = noon, now_booking_date = noon, now_registration = noon\<rparr>"

text \<open>
  A form with a blank name and a check-out date that is not after the check-in date, and a
  store that already knows the customer of the example form under another name.
\<close>

definition invalid_form :: form where
  "invalid_form = example_form\<lparr>form_customer_name := str ''  '', form_check_out := Abs_date 739000\<rparr>"

definition known_customer :: customer where
  "known_customer =
     \<lparr>name = str ''A. Rao'', email = str ''a@b.co'', phone = str ''9000000000'', address = [],
      registration_date = ''2024-01-01 09:00:00''\<rparr>"

definition returning_store :: store where
  "returning_store = fresh_store\<lparr>customers_file := Stored [known_customer]\<rparr>"


subsection \<open>Clock readings\<close>

text \<open>
  A clock reading of the years 1000 to 9999 (four digits under \<^verbatim>\<open>%Y\<close>), and two readings
  that agree up to the second.
\<close>

definition valid_datetime :: "datetime \<Rightarrow> bool" where
  "valid_datetime t =
     (1000 \<le> year t \<and> year t \<le> 9999 \<and> 1 \<le> month t \<and> month t \<le> 12 \<and>
      1 \<le> day t \<and> day t \<le> 31 \<and> hour t < 24 \<and> minute t < 60 \<and> second t < 60 \<and>
      microsecond t < 1000000)"

definition same_second :: "datetime \<Rightarrow> datetime \<Rightarrow> bool" where
  "same_second t u =
     (year t = year u \<and> month t = month u \<and> day t = day u \<and>
      hour t = hour u \<and> minute t = minute u \<and> second t = second u)"

text \<open>
  A reading half a second after \<open>noon\<close>, and a clock that shows it.
\<close>

definition half_past_noon :: datetime where
  "half_past_noon = noon\<lparr>microsecond := 500000\<rparr>"

definition later_clock :: clock where
  "later_clock =
     \<lparr>now_booking_id = half_past_noon, now_booking_date = half_past_noon,
      now_registration = half_past_noon\<rparr>"

text \<open>
  The matcher of a single character with property \<open>P\<close>; a character set is matched by it.
\<close>

definition char_step :: "(codepoint \<Rightarrow> bool) \<Rightarrow> unicode \<Rightarrow> unicode list" where
  "char_step P t = (case t of [] \<Rightarrow> [] | c # u \<Rightarrow> if P c then [u] else [])"

text \<open>
  A reading one second after \<open>noon\<close> with a clock that shows it, and the store after the
  example form was booked on the fresh store at noon.
\<close>

definition one_past_noon :: datetime where
  "one_past_noon = noon\<lparr>second := 1\<rparr>"

definition next_clock :: clock where
  "next_clock =
     \<lparr>now_booking_id = one_past_noon, now_booking_date = one_past_noon,
      now_registration = one_past_noon\<rparr>"

definition booked_store :: store where
  "booked_store =
     \<lparr>bookings_file = Stored [new_booking example_clock example_form (default_rooms ! 0)],
      customers_file = Stored [make_customer example_clock example_form],
      rooms_file = Stored (occupy default_rooms (default_rooms ! 0))\<rparr>"

subsection \<open>The shapes of phone numbers and email addresses in the words of the specification\<close>

text \<open>
  The phone shape as the specification words it, a digit being one of \<^verbatim>\<open>0\<close> to \<^verbatim>\<open>9\<close>: a
  national number is exactly 10 digits whose first is 6, 7, 8 or 9, and a phone is a
  national number with an optional \<^verbatim>\<open>+91\<close> in front. The pattern of the source allows one
  more thing, stated by \<open>phone_shape_sep\<close>: one hyphen or whitespace character between
  \<^verbatim>\<open>+91\<close> and the number.
\<close>

definition ascii_digit :: "codepoint \<Rightarrow> bool" where
  "ascii_digit c = (48 \<le> c \<and> c \<le> 57)"

definition national_number :: "unicode \<Rightarrow> bool" where
  "national_number t = (length t = 10 \<and> list_all ascii_digit t \<and> hd t \<in> set (str ''6789''))"

definition phone_shape :: "unicode \<Rightarrow> bool" where
  "phone_shape t = (national_number t \<or> (take 3 t = str ''+91'' \<and> national_number (drop 3 t)))"

definition phone_shape_sep :: "unicode \<Rightarrow> bool" where
  "phone_shape_sep t =
     (phone_shape t \<or>
      (length t = 14 \<and> take 3 t = str ''+91'' \<and> (t ! 3 = ord CHR ''-'' \<or> isspace (t ! 3)) \<and>
       national_number (drop 4 t)))"

text \<open>
  A text whose decimal digits, if it has any, are among \<^verbatim>\<open>0\<close> to \<^verbatim>\<open>9\<close>.
\<close>

definition plain_digits :: "unicode \<Rightarrow> bool" where
  "plain_digits s = list_all (\<lambda>c. isdecimal c \<longrightarrow> ascii_digit c) s"

text \<open>
  What the pattern of \<^verbatim>\<open>validate_phone\<close> accepts on all of Unicode: the first of the ten
  digits is one of \<^verbatim>\<open>6\<close> to \<^verbatim>\<open>9\<close>, and each of the nine others is a decimal digit of any
  script.
\<close>

definition decimal_number :: "unicode \<Rightarrow> bool" where
  "decimal_number t = (length t = 10 \<and> hd t \<in> set (str ''6789'') \<and> list_all isdecimal (tl t))"

definition phone_shape_unicode :: "unicode \<Rightarrow> bool" where
  "phone_shape_unicode t =
     (decimal_number t \<or> (take 3 t = str ''+91'' \<and> decimal_number (drop 3 t)) \<or>
      (length t = 14 \<and> take 3 t = str ''+91'' \<and> (t ! 3 = ord CHR ''-'' \<or> isspace (t ! 3)) \<and>
       decimal_number (drop 4 t)))"

text \<open>
  The digit \<^verbatim>\<open>9\<close> (code point 57) followed by nine times the Arabic-Indic digit eight
  (U+0668, code point 1640).
\<close>

definition arabic_indic_phone :: unicode where
  "arabic_indic_phone = [57, 1640, 1640, 1640, 1640, 1640, 1640, 1640, 1640, 1640]"

text \<open>
  The email shape as the specification words it, \<^verbatim>\<open>local@domain.tld\<close>: one or more
  characters from letters, digits and \<^verbatim>\<open>._%+-\<close>, then \<^verbatim>\<open>@\<close>, then the domain labels
  separated by dots (read in the widest sense: one or more characters from letters, digits,
  dot and hyphen), then a dot and a final label of at least 2 letters.
\<close>

definition ascii_letter :: "codepoint \<Rightarrow> bool" where
  "ascii_letter c = ((97 \<le> c \<and> c \<le> 122) \<or> (65 \<le> c \<and> c \<le> 90))"

definition local_char :: "codepoint \<Rightarrow> bool" where
  "local_char c = (ascii_letter c \<or> ascii_digit c \<or> c \<in> set (str ''._%+-''))"

definition domain_char :: "codepoint \<Rightarrow> bool" where
  "domain_char c = (ascii_letter c \<or> ascii_digit c \<or> c \<in> set (str ''.-''))"

definition email_shape :: "unicode \<Rightarrow> bool" where
  "email_shape s =
     (\<exists>local dom tld. s = local @ str ''@'' @ dom @ str ''.'' @ tld \<and>
        local \<noteq> [] \<and> list_all local_char local \<and>
        dom \<noteq> [] \<and> list_all domain_char dom \<and>
        2 \<le> length tld \<and> list_all ascii_letter tld)"

section \<open>Properties\<close>

subsection \<open>Loading a collection\<close>

text \<open>
  Claim C9. For every collection, \<^verbatim>\<open>load_data\<close> returns the empty list when the file is
  absent, cannot be read or does not hold JSON, and it never raises: whatever the state
  of the file, the call returns a list (for a stored list, that list).
\<close>

theorem load_data_never_raises:
  "load_data (Absent :: 'a json_file) = Inr ([], []) \<and>
   (\<exists>shown. load_data (Unreadable :: 'a json_file) = Inr ([], shown)) \<and>
   (\<exists>shown. load_data (Malformed :: 'a json_file) = Inr ([], shown)) \<and>
   load_data (Stored xs :: 'a json_file) = Inr (xs, []) \<and>
   (\<exists>loaded shown. load_data (f :: 'a json_file) = Inr (loaded, shown))"
proof -
  have absent: "load_data (Absent :: 'a json_file) = Inr ([], [])"
    by (simp add: load_data_def os_path_exists_def)
  have unreadable: "load_data (Unreadable :: 'a json_file) = Inr ([], [Error ''Error loading data''])"
    by (simp add: load_data_def os_path_exists_def json_load_def bind_exn_def)
  have malformed: "load_data (Malformed :: 'a json_file) = Inr ([], [Error ''Error loading data''])"
    by (simp add: load_data_def os_path_exists_def json_load_def bind_exn_def)
  have stored: "load_data (Stored ys :: 'a json_file) = Inr (ys, [])" for ys
    by (simp add: load_data_def os_path_exists_def json_load_def bind_exn_def)
  have "\<exists>loaded shown. load_data f = Inr (loaded, shown)"
    using absent unreadable malformed stored by (cases f) simp_all
  then show ?thesis using absent unreadable malformed stored by simp
qed

subsection \<open>Rounding to the nearest double\<close>

lemma powi2_pos: "0 < (2::rat) powi n"
  by (simp add: power_int_def)

lemma powi2_less: "m < n \<Longrightarrow> (2::rat) powi m < 2 powi n"
  by (rule power_int_strict_increasing) simp_all

lemma powi2_le: "m \<le> n \<Longrightarrow> (2::rat) powi m \<le> 2 powi n"
  by (rule power_int_increasing) simp_all

lemma powi2_less_cancel: "(2::rat) powi m < 2 powi n \<Longrightarrow> m < n"
  using powi2_le [of n m] by (cases "m < n") auto

lemma powi_bitlen:
  assumes "0 < a"
  shows "(2::rat) powi (bitlen a - 1) \<le> of_int a" and "of_int a < (2::rat) powi (bitlen a)"
proof -
  from bitlen_bounds [OF assms]
  have lo: "2 ^ nat (bitlen a - 1) \<le> a" and hi: "a < 2 ^ nat (bitlen a)" by auto
  have pos: "1 \<le> bitlen a" using assms bitlen_eq_zero_iff [of a] bitlen_nonneg [of a] by linarith
  have "(of_int (2 ^ nat (bitlen a - 1)) :: rat) \<le> of_int a" using lo by (simp only: of_int_le_iff)
  then show "(2::rat) powi (bitlen a - 1) \<le> of_int a" using pos by (simp add: power_int_def)
  have "(of_int a :: rat) < of_int (2 ^ nat (bitlen a))" using hi by (simp only: of_int_less_iff)
  then show "of_int a < (2::rat) powi (bitlen a)" using pos by (simp add: power_int_def)
qed

lemma rhe_of_int: "rhe (of_int i) = i"
  by (simp add: rhe_def)

lemma rhe_near:
  assumes "\<bar>q - of_int i\<bar> < 1/2"
  shows "rhe q = i"
proof -
  have "\<lfloor>q\<rfloor> = i \<or> \<lfloor>q\<rfloor> = i - 1" using assms by linarith
  then show ?thesis
  proof
    assume "\<lfloor>q\<rfloor> = i"
    moreover from this have "q - of_int i < 1/2" using assms by linarith
    ultimately show ?thesis by (simp add: rhe_def Let_def)
  next
    assume h: "\<lfloor>q\<rfloor> = i - 1"
    then have "of_int (i - 1) \<le> q" by linarith
    moreover have "q - of_int (i - 1) > 1/2" using assms by (simp; linarith)
    ultimately show ?thesis using h by (simp add: rhe_def Let_def)
  qed
qed

lemma dexp_bounds:
  assumes "x \<noteq> 0"
  shows "2 powi (dexp x + 52) \<le> \<bar>x\<bar>" and "\<bar>x\<bar> < 2 powi (dexp x + 53)"
proof -
  obtain a b where ab: "quotient_of \<bar>x\<bar> = (a, b)" by (cases "quotient_of \<bar>x\<bar>")
  have b: "0 < b" using ab by (rule quotient_of_denom_pos)
  have x: "\<bar>x\<bar> = of_int a / of_int b" using ab by (rule quotient_of_div)
  have "0 < \<bar>x\<bar>" using assms by simp
  then have a: "0 < a" using x b by (simp add: zero_less_divide_iff)
  define s where "s = bitlen a - bitlen b - 53"
  have d: "dexp x = (if \<bar>x\<bar> < 2 powi (s + 53) then s else s + 1)"
    by (simp add: dexp_def ab s_def Let_def)
  note A = powi_bitlen [OF a] and B = powi_bitlen [OF b]
  have bpos: "(0::rat) < of_int b" using b by simp
  have "(2::rat) powi (s + 52) * of_int b < 2 powi (s + 52) * 2 powi (bitlen b)"
    using B(2) powi2_pos [of "s + 52"] by (simp add: mult_strict_left_mono)
  also have "\<dots> = (2::rat) powi (bitlen a - 1)"
    by (simp add: s_def power_int_add [symmetric])
  also have "\<dots> \<le> of_int a" by (rule A(1))
  finally have lo: "(2::rat) powi (s + 52) < \<bar>x\<bar>" using bpos by (simp add: x pos_less_divide_eq)
  have "of_int a < (2::rat) powi (bitlen a)" by (rule A(2))
  also have "\<dots> = (2::rat) powi (s + 54) * 2 powi (bitlen b - 1)"
    by (simp add: s_def power_int_add [symmetric])
  also have "\<dots> \<le> (2::rat) powi (s + 54) * of_int b"
    using B(1) powi2_pos [of "s + 54"] by (simp add: mult_left_mono)
  finally have hi: "\<bar>x\<bar> < 2 powi (s + 54)" using bpos by (simp add: x pos_divide_less_eq)
  show "2 powi (dexp x + 52) \<le> \<bar>x\<bar>" using lo d by (auto simp: add.commute)
  show "\<bar>x\<bar> < 2 powi (dexp x + 53)" using hi d by (auto simp: add.commute)
qed

lemma dexp_unique:
  assumes "2 powi (e + 52) \<le> \<bar>x\<bar>" and "\<bar>x\<bar> < 2 powi (e + 53)"
  shows "dexp x = e"
proof -
  have "0 < \<bar>x\<bar>" using assms(1) powi2_pos [of "e + 52"] by linarith
  then have "x \<noteq> 0" by simp
  note D = dexp_bounds [OF this]
  have "(2::rat) powi (e + 52) < 2 powi (dexp x + 53)" using assms(1) D(2) by linarith
  then have 1: "e + 52 < dexp x + 53" by (rule powi2_less_cancel)
  have "(2::rat) powi (dexp x + 52) < 2 powi (e + 53)" using assms(2) D(1) by linarith
  then have 2: "dexp x + 52 < e + 53" by (rule powi2_less_cancel)
  from 1 2 show ?thesis by linarith
qed

lemma round_to_double_eq:
  assumes "2 powi (e + 52) \<le> \<bar>x\<bar>" and "\<bar>x\<bar> < 2 powi (e + 53)"
    and "\<bar>x / 2 powi e - of_int m\<bar> < 1/2"
  shows "round_to_double x = of_int m * 2 powi e"
proof -
  have "0 < \<bar>x\<bar>" using assms(1) powi2_pos [of "e + 52"] by linarith
  then have "x \<noteq> 0" by simp
  moreover have "dexp x = e" using assms(1,2) by (rule dexp_unique)
  moreover have "rhe (x / 2 powi e) = m" using assms(3) by (rule rhe_near)
  ultimately show ?thesis by (simp add: round_to_double_def)
qed

lemma round_to_double_near_int:
  assumes K: "0 < K" and b: "bitlen K \<le> 53"
    and lo: "2 powi (bitlen K - 1) \<le> x" and hi: "x < 2 powi (bitlen K)"
    and near: "\<bar>x - of_int K\<bar> * 2 powi (53 - bitlen K) < 1/2"
  shows "round_to_double x = of_int K"
proof -
  define e where "e = bitlen K - 53"
  define m where "m = K * 2 ^ nat (53 - bitlen K)"
  have xpos: "0 < x" using lo powi2_pos [of "bitlen K - 1"] by linarith
  have m: "(of_int m :: rat) = of_int K * 2 powi (53 - bitlen K)"
    using b by (simp add: m_def power_int_def)
  have inv: "(2::rat) powi (53 - bitlen K) * 2 powi e = 1"
    by (simp add: e_def power_int_add [symmetric])
  have div: "x / 2 powi e = x * 2 powi (53 - bitlen K)"
    using inv by (simp add: field_simps)
  have 1: "2 powi (e + 52) \<le> \<bar>x\<bar>" using lo xpos by (simp add: e_def)
  have 2: "\<bar>x\<bar> < 2 powi (e + 53)" using hi xpos by (simp add: e_def)
  have "x / 2 powi e - of_int m = (x - of_int K) * 2 powi (53 - bitlen K)"
    by (simp add: div m algebra_simps)
  then have 3: "\<bar>x / 2 powi e - of_int m\<bar> < 1/2"
    using near powi2_pos [of "53 - bitlen K"] by (simp add: abs_mult)
  have "round_to_double x = of_int m * 2 powi e" using 1 2 3 by (rule round_to_double_eq)
  also have "\<dots> = of_int K" using inv by (simp add: m mult.assoc)
  finally show ?thesis .
qed

lemma round_to_double_int:
  assumes "0 < K" and "K < 2 ^ 53"
  shows "round_to_double (of_int K) = of_int K"
proof -
  have b: "bitlen K \<le> 53" using assms(2) by (simp add: bitlen_le_iff_power)
  show ?thesis
    using assms(1) b powi_bitlen [OF assms(1)]
    by (intro round_to_double_near_int) simp_all
qed

lemma float_of_int_small:
  assumes "0 < K" and "K < 2 ^ 53"
  shows "float_of_int K = Inr (of_int K)"
proof -
  have "(of_int K :: rat) < 2 ^ 53" using assms(2) by (metis of_int_less_iff of_int_numeral of_int_power)
  also have "\<dots> < 2 ^ 1024" by simp
  finally have "\<bar>of_int K :: rat\<bar> < 2 ^ 1024" using assms(1) by simp
  then show ?thesis using assms by (simp add: float_of_int_def round_to_double_int Let_def)
qed

lemma literal_0_15: "float_literal (15 / 100) = 5404319552844595 / 2 ^ 55"
proof -
  have "round_to_double (15 / 100) = of_int 5404319552844595 * 2 powi (- 55)"
    by (rule round_to_double_eq) (simp_all add: power_int_minus)
  then show ?thesis by (simp add: float_literal_def power_int_minus field_simps)
qed

lemma literal_0_10: "float_literal (10 / 100) = 7205759403792794 / 2 ^ 56"
proof -
  have "round_to_double (10 / 100) = of_int 7205759403792794 * 2 powi (- 56)"
    by (rule round_to_double_eq) (simp_all add: power_int_minus)
  then show ?thesis by (simp add: float_literal_def power_int_minus field_simps)
qed

lemma one_minus_0_15: "round_to_double (1 - 5404319552844595 / 2 ^ 55) = 7656119366529843 / 2 ^ 53"
proof -
  have "round_to_double (1 - 5404319552844595 / 2 ^ 55) = of_int 7656119366529843 * 2 powi (- 53)"
    by (rule round_to_double_eq) (simp_all add: power_int_minus)
  then show ?thesis by (simp add: power_int_minus field_simps)
qed

lemma one_minus_0_10: "round_to_double (1 - 7205759403792794 / 2 ^ 56) = 8106479329266893 / 2 ^ 53"
proof -
  have "round_to_double (1 - 7205759403792794 / 2 ^ 56) = of_int 8106479329266893 * 2 powi (- 53)"
    by (rule round_to_double_eq) (simp_all add: power_int_minus)
  then show ?thesis by (simp add: power_int_minus field_simps)
qed

lemma powi_as_int:
  assumes "0 \<le> n"
  shows "(2::rat) powi n = of_int (2 ^ nat n)"
  using assms by (simp add: power_int_def)

lemma multiple_of_17_not_power_of_2: "17 * t \<noteq> (2::int) ^ n"
proof
  assume h: "17 * t = (2::int) ^ n"
  have "coprime (17::int) (2 ^ n)" by (rule coprime_power_right_iff [THEN iffD2]) simp
  moreover have "(17::int) dvd 2 ^ n" using h [symmetric] by simp
  ultimately have "is_unit (17::int)" by (meson coprime_absorb_left)
  then show False by simp
qed

lemma times_0_85_exact:
  assumes t: "0 < t" and small: "20 * t < 2 ^ 53"
  shows "round_to_double (of_int (20 * t) * (7656119366529843 / 2 ^ 53)) = of_int (17 * t)"
proof -
  define K where "K = 17 * t"
  define b where "b = bitlen K"
  define x :: rat where "x = of_int (20 * t) * (7656119366529843 / 2 ^ 53)"
  have K: "0 < K" using t by (simp add: K_def)
  have "K < 2 ^ 53" using small t by (simp add: K_def)
  then have b53: "bitlen K \<le> 53" by (simp add: bitlen_le_iff_power)
  have b1: "1 \<le> b" using K bitlen_eq_zero_iff [of K] bitlen_nonneg [of K] unfolding b_def by linarith
  have x: "x = of_int K - of_int (4 * t) / 2 ^ 53"
    by (simp add: x_def K_def field_simps)
  have tiny: "of_int (4 * t) / 2 ^ 53 < (1::rat)"
  proof -
    have "(of_int (4 * t) :: rat) < of_int (2 ^ 53)" using small t by (simp only: of_int_less_iff)
    then show ?thesis by simp
  qed
  have tpos: "(0::rat) < of_int (4 * t) / 2 ^ 53" using t by simp
  from bitlen_bounds [OF K]
  have ilo: "2 ^ nat (b - 1) \<le> K" and ihi: "K < 2 ^ nat b" by (auto simp: b_def)
  have "K \<noteq> 2 ^ nat (b - 1)" unfolding K_def by (rule multiple_of_17_not_power_of_2)
  then have "2 ^ nat (b - 1) + 1 \<le> K" using ilo by linarith
  then have "(of_int (2 ^ nat (b - 1) + 1) :: rat) \<le> of_int K" by (simp only: of_int_le_iff)
  then have "(2::rat) powi (b - 1) + 1 \<le> of_int K" using b1 by (simp add: powi_as_int)
  then have lo: "2 powi (bitlen K - 1) \<le> x" using tiny by (simp add: x b_def)
  have "(of_int K :: rat) < of_int (2 ^ nat b)" using ihi by (simp only: of_int_less_iff)
  then have rhi: "of_int K < (2::rat) powi b" using b1 by (simp add: powi_as_int)
  then have hi: "x < 2 powi (bitlen K)" using tpos by (simp add: x b_def)
  have split: "(2::rat) powi (53 - b) = 2 ^ 53 / 2 powi b"
    by (simp add: power_int_diff)
  have "(of_int (8 * t) :: rat) \<le> of_int K" using t by (simp only: of_int_le_iff) (simp add: K_def)
  then have "(of_int (8 * t) :: rat) < 2 powi b" using rhi by linarith
  then have "of_int (4 * t) / 2 powi b < (1/2 :: rat)"
    using powi2_pos [of b] by (simp add: pos_divide_less_eq)
  moreover have "\<bar>x - of_int K\<bar> * 2 powi (53 - b) = of_int (4 * t) / 2 powi b"
    using t by (simp add: x split abs_if)
  ultimately have near: "\<bar>x - of_int K\<bar> * 2 powi (53 - bitlen K) < 1/2" by (simp add: b_def)
  have "round_to_double x = of_int K" using K b53 lo hi near by (rule round_to_double_near_int)
  then show ?thesis by (simp add: x_def K_def)
qed

lemma times_0_90_exact:
  assumes t: "0 < t" and small: "10 * t < 2 ^ 53"
  shows "round_to_double (of_int (10 * t) * (8106479329266893 / 2 ^ 53)) = of_int (9 * t)"
proof -
  define K where "K = 9 * t"
  define b where "b = bitlen K"
  define x :: rat where "x = of_int (10 * t) * (8106479329266893 / 2 ^ 53)"
  have K: "0 < K" using t by (simp add: K_def)
  have "K < 2 ^ 53" using small t by (simp add: K_def)
  then have b53: "bitlen K \<le> 53" by (simp add: bitlen_le_iff_power)
  have b1: "1 \<le> b" using K bitlen_eq_zero_iff [of K] bitlen_nonneg [of K] unfolding b_def by linarith
  have x: "x = of_int K + of_int (2 * t) / 2 ^ 53"
    by (simp add: x_def K_def field_simps)
  have tiny: "of_int (2 * t) / 2 ^ 53 < (1::rat)"
  proof -
    have "(of_int (2 * t) :: rat) < of_int (2 ^ 53)" using small t by (simp only: of_int_less_iff)
    then show ?thesis by simp
  qed
  have tpos: "(0::rat) < of_int (2 * t) / 2 ^ 53" using t by simp
  from bitlen_bounds [OF K]
  have ilo: "2 ^ nat (b - 1) \<le> K" and ihi: "K < 2 ^ nat b" by (auto simp: b_def)
  have "(of_int (2 ^ nat (b - 1)) :: rat) \<le> of_int K" using ilo by (simp only: of_int_le_iff)
  then have "(2::rat) powi (b - 1) \<le> of_int K" using b1 by (simp add: powi_as_int)
  then have lo: "2 powi (bitlen K - 1) \<le> x" using tpos by (simp add: x b_def)
  have "K + 1 \<le> 2 ^ nat b" using ihi by linarith
  then have "(of_int (K + 1) :: rat) \<le> of_int (2 ^ nat b)" by (simp only: of_int_le_iff)
  then have rhi: "of_int K + 1 \<le> (2::rat) powi b" using b1 by (simp add: powi_as_int)
  then have hi: "x < 2 powi (bitlen K)" using tiny by (simp add: x b_def)
  have split: "(2::rat) powi (53 - b) = 2 ^ 53 / 2 powi b"
    by (simp add: power_int_diff)
  have "(of_int (4 * t) :: rat) \<le> of_int K" using t by (simp only: of_int_le_iff) (simp add: K_def)
  then have "(of_int (4 * t) :: rat) < 2 powi b" using rhi by linarith
  then have "of_int (2 * t) / 2 powi b < (1/2 :: rat)"
    using powi2_pos [of b] by (simp add: pos_divide_less_eq)
  moreover have "\<bar>x - of_int K\<bar> * 2 powi (53 - b) = of_int (2 * t) / 2 powi b"
    using t by (simp add: x split abs_if)
  ultimately have near: "\<bar>x - of_int K\<bar> * 2 powi (53 - bitlen K) < 1/2" by (simp add: b_def)
  have "round_to_double x = of_int K" using K b53 lo hi near by (rule round_to_double_near_int)
  then show ?thesis by (simp add: x_def K_def)
qed

subsection \<open>The pricing function\<close>

lemma base_price_lookup:
  "(case base_prices rt of Some p \<Rightarrow> p | None \<Rightarrow> 2500) = spec_base_price rt"
  by (simp add: base_prices_def spec_base_price_def)

lemma py_sub_one_float: "py_sub (PyInt 1) (PyFloat y) = Inr (PyFloat (round_to_double (1 - y)))"
  using float_of_int_small [of 1]
  by (simp add: py_sub_def to_float_def bind_exn_def)

lemma py_mul_int_float:
  "0 < N \<Longrightarrow> N < 2 ^ 53 \<Longrightarrow>
   py_mul (PyInt N) (PyFloat y) = Inr (PyFloat (round_to_double (of_int N * y)))"
  by (simp add: py_mul_def to_float_def bind_exn_def float_of_int_small)

lemma py_round2_int_valued:
  assumes "0 < K" and "K < 2 ^ 53"
  shows "py_round2 (PyFloat (of_int K)) = PyFloat (of_int K)"
proof -
  have "rhe (of_int K * 100) = K * 100"
    using rhe_of_int [of "K * 100"] by simp
  then show ?thesis using assms by (simp add: py_round2_def round_to_double_int)
qed

lemma round_2dp_int: "round_2dp (of_int K) = of_int K"
proof -
  have "round (of_int K * 100 :: rat) = K * 100"
    using round_of_int [of "K * 100", where ?'a = rat] by simp
  then show ?thesis by (simp add: round_2dp_def)
qed

lemma undiscounted_multiple:
  assumes "1 \<le> n" and "1 \<le> g"
  shows "\<exists>j. 0 < j \<and> undiscounted rt n g = 500 * (n * j)"
proof -
  obtain bj where bj: "0 < bj" "spec_base_price rt = 500 * bj"
  proof -
    have "spec_base_price rt = 500 * 5 \<or> spec_base_price rt = 500 * 8 \<or>
          spec_base_price rt = 500 * 15 \<or> spec_base_price rt = 500 * 30"
      by (simp add: spec_base_price_def)
    then show ?thesis using that by fastforce
  qed
  have "undiscounted rt n g = 500 * (n * (bj + max 0 (g - 2)))"
    by (simp add: undiscounted_def bj algebra_simps)
  moreover have "0 < bj + max 0 (g - 2)" using bj by simp
  ultimately show ?thesis by blast
qed

lemma calculate_booking_amount_value:
  assumes n: "1 \<le> n" and g: "1 \<le> g" and small: "undiscounted rt n g < 2 ^ 53"
  shows "calculate_booking_amount rt n g =
           Inr (if 3 \<le> n then PyFloat (compute_price_spec rt n g)
                else PyInt (undiscounted rt n g))"
proof -
  obtain j where j: "0 < j" "undiscounted rt n g = 500 * (n * j)"
    using undiscounted_multiple [OF n g] by blast
  define t where "t = n * j"
  have t: "0 < t" using n j by (simp add: t_def)
  have N: "undiscounted rt n g = 500 * t" using j by (simp add: t_def)
  have Npos: "0 < undiscounted rt n g" using t N by simp
  have total: "spec_base_price rt * n + max 0 (g - 2) * 500 * n = undiscounted rt n g"
    by (simp add: undiscounted_def)
  consider "7 \<le> n" | "3 \<le> n" "n < 7" | "n < 3" by linarith
  then show ?thesis
  proof cases
    case 1
    have K: "0 < 17 * (25 * t)" "17 * (25 * t) < 2 ^ 53" using t small N by simp_all
    have "round_to_double (of_int (20 * (25 * t)) * (7656119366529843 / 2 ^ 53)) = of_int (17 * (25 * t))"
      using t small N by (intro times_0_85_exact) simp_all
    then have mul: "round_to_double (of_int (undiscounted rt n g) * (7656119366529843 / 2 ^ 53))
        = of_int (17 * (25 * t))" by (simp add: N)
    have spec: "compute_price_spec rt n g = of_int (17 * (25 * t))"
    proof -
      have "of_int (undiscounted rt n g) * (1 - spec_discount n) = (of_int (17 * (25 * t)) :: rat)"
        using 1 by (simp add: N spec_discount_def)
      then show ?thesis by (simp only: compute_price_spec_def round_2dp_int)
    qed
    have s1: "py_sub (PyInt 1) (PyFloat (float_literal (15 / 100))) = Inr (PyFloat (7656119366529843 / 2 ^ 53))"
      by (simp only: py_sub_one_float literal_0_15 one_minus_0_15)
    have s2: "py_mul (PyInt (undiscounted rt n g)) (PyFloat (7656119366529843 / 2 ^ 53)) =
        Inr (PyFloat (of_int (17 * (25 * t))))"
      by (simp only: py_mul_int_float [OF Npos small] mul)
    have s3: "py_round2 (PyFloat (of_int (17 * (25 * t)))) = PyFloat (of_int (17 * (25 * t)))"
      by (rule py_round2_int_valued [OF K])
    have unfold: "calculate_booking_amount rt n g =
        bind_exn (py_sub (PyInt 1) (PyFloat (float_literal (15 / 100)))) (\<lambda>factor.
        bind_exn (py_mul (PyInt (undiscounted rt n g)) factor) (\<lambda>total. Inr (py_round2 total)))"
      using 1 by (simp only: calculate_booking_amount_def Let_def base_price_lookup total if_True if_False)
    have "3 \<le> n" using 1 by simp
    then show ?thesis
      unfolding unfold s1 bind_exn_def sum.case s2 s3 spec by simp
  next
    case 2
    have K: "0 < 9 * (50 * t)" "9 * (50 * t) < 2 ^ 53" using t small N by simp_all
    have "round_to_double (of_int (10 * (50 * t)) * (8106479329266893 / 2 ^ 53)) = of_int (9 * (50 * t))"
      using t small N by (intro times_0_90_exact) simp_all
    then have mul: "round_to_double (of_int (undiscounted rt n g) * (8106479329266893 / 2 ^ 53))
        = of_int (9 * (50 * t))" by (simp add: N)
    have spec: "compute_price_spec rt n g = of_int (9 * (50 * t))"
    proof -
      have "of_int (undiscounted rt n g) * (1 - spec_discount n) = (of_int (9 * (50 * t)) :: rat)"
        using 2 by (simp add: N spec_discount_def)
      then show ?thesis by (simp only: compute_price_spec_def round_2dp_int)
    qed
    have s1: "py_sub (PyInt 1) (PyFloat (float_literal (10 / 100))) = Inr (PyFloat (8106479329266893 / 2 ^ 53))"
      by (simp only: py_sub_one_float literal_0_10 one_minus_0_10)
    have s2: "py_mul (PyInt (undiscounted rt n g)) (PyFloat (8106479329266893 / 2 ^ 53)) =
        Inr (PyFloat (of_int (9 * (50 * t))))"
      by (simp only: py_mul_int_float [OF Npos small] mul)
    have s3: "py_round2 (PyFloat (of_int (9 * (50 * t)))) = PyFloat (of_int (9 * (50 * t)))"
      by (rule py_round2_int_valued [OF K])
    have unfold: "calculate_booking_amount rt n g =
        bind_exn (py_sub (PyInt 1) (PyFloat (float_literal (10 / 100)))) (\<lambda>factor.
        bind_exn (py_mul (PyInt (undiscounted rt n g)) factor) (\<lambda>total. Inr (py_round2 total)))"
    proof -
      have "\<not> 7 \<le> n" using 2 by simp
      with 2(1) show ?thesis
        by (simp only: calculate_booking_amount_def Let_def base_price_lookup total if_True if_False)
    qed
    have "3 \<le> n" using 2 by simp
    then show ?thesis
      unfolding unfold s1 bind_exn_def sum.case s2 s3 spec by simp
  next
    case 3
    then show ?thesis
      by (simp add: calculate_booking_amount_def base_price_lookup total Let_def
            py_sub_def py_mul_def py_round2_def bind_exn_def)
  qed
qed

lemma large_total_to_float: "float_of_int 250000000000000002500 = Inr 250000000000000000000"
proof -
  have "round_to_double (of_int 250000000000000002500) = of_int 7629394531250000 * 2 powi 15"
    by (rule round_to_double_eq) simp_all
  then show ?thesis by (simp add: float_of_int_def)
qed

lemma large_total_discounted: "round_to_double (250000000000000000000 * (7656119366529843 / 2 ^ 53)) = 212500000000000000000"
proof -
  have "round_to_double (250000000000000000000 * (7656119366529843 / 2 ^ 53))
      = of_int 6484985351562500 * 2 powi 15"
    by (rule round_to_double_eq) simp_all
  then show ?thesis by simp
qed

lemma large_total_rounded: "py_round2 (PyFloat 212500000000000000000) = PyFloat 212500000000000000000"
proof -
  have "rhe (212500000000000000000 * 100) = 21250000000000000000000"
    using rhe_of_int [of 21250000000000000000000] by simp
  moreover have "round_to_double 212500000000000000000 = of_int 6484985351562500 * 2 powi 15"
    by (rule round_to_double_eq) simp_all
  ultimately show ?thesis by (simp add: py_round2_def)
qed

lemma large_stay_result:
  "calculate_booking_amount ''Standard'' (10 ^ 17 + 1) 2 = Inr (PyFloat 212500000000000000000)"
proof -
  have s1: "py_sub (PyInt 1) (PyFloat (float_literal (15 / 100))) = Inr (PyFloat (7656119366529843 / 2 ^ 53))"
    by (simp only: py_sub_one_float literal_0_15 one_minus_0_15)
  have s2: "py_mul (PyInt 250000000000000002500) (PyFloat (7656119366529843 / 2 ^ 53)) =
      Inr (PyFloat 212500000000000000000)"
    by (simp only: py_mul_def to_float_def prod.case pynum.case bind_exn_def large_total_to_float sum.case large_total_discounted)
  have unfold: "calculate_booking_amount ''Standard'' (10 ^ 17 + 1) 2 =
        bind_exn (py_sub (PyInt 1) (PyFloat (float_literal (15 / 100)))) (\<lambda>factor.
        bind_exn (py_mul (PyInt 250000000000000002500) factor) (\<lambda>total. Inr (py_round2 total)))"
  proof -
    have "spec_base_price ''Standard'' * (10 ^ 17 + 1) + max 0 (2 - 2) * 500 * (10 ^ 17 + 1)
       = (250000000000000002500 :: int)" by (simp add: spec_base_price_def)
    moreover have "(7::int) \<le> 10 ^ 17 + 1" by simp
    ultimately show ?thesis
      by (simp only: calculate_booking_amount_def Let_def base_price_lookup if_True)
  qed
  show ?thesis unfolding unfold s1 bind_exn_def sum.case s2 large_total_rounded ..
qed

lemma large_stay_formula: "compute_price_spec ''Standard'' (10 ^ 17 + 1) 2 = 212500000000000002125"
proof -
  have "round_2dp (of_int 212500000000000002125) = of_int 212500000000000002125"
    by (rule round_2dp_int)
  then show ?thesis
    by (simp add: compute_price_spec_def undiscounted_def spec_base_price_def spec_discount_def)
qed

text \<open>
  Claim C1, as amended. For every room type \<open>rt\<close>, every number of nights \<open>n\<close> from 1 and
  every number of guests \<open>g\<close> from 1 such that the undiscounted total (base price times
  nights plus the extra guest charge) is below \<open>2^53\<close>, \<^verbatim>\<open>calculate_booking_amount\<close>
  returns a number whose exact value is the specification's formula: that total times one
  minus the discount, rounded to two decimal places.
\<close>

theorem calculate_booking_amount_exact:
  assumes "1 \<le> n" and "1 \<le> g" and "undiscounted rt n g < 2 ^ 53"
  shows "\<exists>v. calculate_booking_amount rt n g = Inr v \<and> num_value v = compute_price_spec rt n g"
proof (cases "3 \<le> n")
  case True
  then show ?thesis using calculate_booking_amount_value [OF assms] by simp
next
  case False
  then have "compute_price_spec rt n g = of_int (undiscounted rt n g)"
    by (simp add: compute_price_spec_def spec_discount_def round_2dp_int)
  then show ?thesis using False calculate_booking_amount_value [OF assms] by simp
qed

text \<open>The three examples of the claim, obtained from the theorem.\<close>

theorem calculate_booking_amount_exact_witness:
  "(\<exists>v. calculate_booking_amount ''Standard'' 1 2 = Inr v \<and> num_value v = 2500) \<and>
   (\<exists>v. calculate_booking_amount ''Deluxe'' 3 2 = Inr v \<and> num_value v = 10800) \<and>
   (\<exists>v. calculate_booking_amount ''Suite'' 7 4 = Inr v \<and> num_value v = 50575)"
proof -
  have 1: "compute_price_spec ''Standard'' 1 2 = 2500"
    using round_2dp_int [of 2500]
    by (simp add: compute_price_spec_def undiscounted_def spec_base_price_def spec_discount_def)
  have 2: "compute_price_spec ''Deluxe'' 3 2 = 10800"
    using round_2dp_int [of 10800]
    by (simp add: compute_price_spec_def undiscounted_def spec_base_price_def spec_discount_def)
  have 3: "compute_price_spec ''Suite'' 7 4 = 50575"
    using round_2dp_int [of 50575]
    by (simp add: compute_price_spec_def undiscounted_def spec_base_price_def spec_discount_def)
  show ?thesis
    using calculate_booking_amount_exact [of 1 2 "''Standard''"]
      calculate_booking_amount_exact [of 3 2 "''Deluxe''"]
      calculate_booking_amount_exact [of 7 4 "''Suite''"]
    by (simp add: 1 2 3 undiscounted_def spec_base_price_def)
qed

text \<open>
  The claim as stated, for every number of nights, fails: for \<open>10^17 + 1\<close> nights in a
  Standard room the exact value of the formula is \<open>212500000000000002125\<close>, and the
  function returns the double \<open>2.125e20\<close>.
\<close>

theorem calculate_booking_amount_large_counterexample:
  "calculate_booking_amount ''Standard'' (10 ^ 17 + 1) 2 = Inr (PyFloat 212500000000000000000) \<and>
   compute_price_spec ''Standard'' (10 ^ 17 + 1) 2 = 212500000000000002125"
  using large_stay_result large_stay_formula by simp

subsection \<open>The regular expression matcher\<close>

lemma rests_Repeat_step:
  "rests subj (Repeat n (CharSet cs)) t = rep_iter (char_step (in_set cs)) n t"
  by (simp add: char_step_def [abs_def])

lemma rests_Plus_step:
  "rests subj (Plus (CharSet cs)) t = plus_iter (char_step (in_set cs)) (length t) t"
  by (simp add: char_step_def [abs_def])

lemma rests_AtLeast_step:
  "rests subj (AtLeast n (CharSet cs)) t =
     concat (map (star_iter (char_step (in_set cs))) (rep_iter (char_step (in_set cs)) n t))"
  by (simp add: char_step_def [abs_def])

lemma set_char_step: "u \<in> set (char_step P t) \<longleftrightarrow> (\<exists>c. t = c # u \<and> P c)"
  by (cases t) (auto simp: char_step_def)

lemma set_rep_iter_step:
  "u \<in> set (rep_iter (char_step P) n t) \<longleftrightarrow> (\<exists>w. t = w @ u \<and> length w = n \<and> list_all P w)"
proof (induction n arbitrary: t)
  case 0
  then show ?case by auto
next
  case (Suc n)
  show ?case
  proof
    assume "u \<in> set (rep_iter (char_step P) (Suc n) t)"
    then obtain m where m: "m \<in> set (char_step P t)" "u \<in> set (rep_iter (char_step P) n m)"
      by auto
    from m(1) obtain c where c: "t = c # m" "P c" by (auto simp: set_char_step)
    from m(2) obtain w where w: "m = w @ u" "length w = n" "list_all P w" by (auto simp: Suc.IH)
    have "t = (c # w) @ u \<and> length (c # w) = Suc n \<and> list_all P (c # w)" using c w by simp
    then show "\<exists>w. t = w @ u \<and> length w = Suc n \<and> list_all P w" by blast
  next
    assume "\<exists>w. t = w @ u \<and> length w = Suc n \<and> list_all P w"
    then obtain w where w: "t = w @ u" "length w = Suc n" "list_all P w" by blast
    then obtain c w' where cw: "w = c # w'" by (cases w) auto
    have "w' @ u \<in> set (char_step P t)" using w cw by (simp add: set_char_step)
    moreover have "u \<in> set (rep_iter (char_step P) n (w' @ u))"
      using w cw by (auto simp: Suc.IH)
    ultimately show "u \<in> set (rep_iter (char_step P) (Suc n) t)" by auto
  qed
qed

lemma set_plus_iter_step:
  "length t \<le> n \<Longrightarrow>
   u \<in> set (plus_iter (char_step P) n t) \<longleftrightarrow> (\<exists>w. t = w @ u \<and> w \<noteq> [] \<and> list_all P w)"
proof (induction n arbitrary: t)
  case 0
  then show ?case by (simp add: char_step_def)
next
  case (Suc n)
  show ?case
  proof (cases t)
    case Nil
    then show ?thesis by (simp add: char_step_def)
  next
    case (Cons c v)
    show ?thesis
    proof (cases "P c")
      case False
      have "\<not> (\<exists>w. t = w @ u \<and> w \<noteq> [] \<and> list_all P w)"
      proof
        assume "\<exists>w. t = w @ u \<and> w \<noteq> [] \<and> list_all P w"
        then obtain w where w: "t = w @ u" "w \<noteq> []" "list_all P w" by blast
        then obtain w' where "w = c # w'" using Cons by (cases w) auto
        then show False using w(3) False by simp
      qed
      then show ?thesis using Cons False by (simp add: char_step_def)
    next
      case True
      have len: "length v \<le> n" using Suc.prems Cons by simp
      have eq: "set (plus_iter (char_step P) (Suc n) t) = set (plus_iter (char_step P) n v) \<union> {v}"
        using Cons True by (simp add: char_step_def)
      show ?thesis
      proof
        assume "u \<in> set (plus_iter (char_step P) (Suc n) t)"
        then consider "u \<in> set (plus_iter (char_step P) n v)" | "u = v" using eq by auto
        then show "\<exists>w. t = w @ u \<and> w \<noteq> [] \<and> list_all P w"
        proof cases
          case 1
          then obtain w where "v = w @ u" "list_all P w" using Suc.IH [OF len] by blast
          then have "t = (c # w) @ u \<and> c # w \<noteq> [] \<and> list_all P (c # w)" using Cons True by simp
          then show ?thesis by blast
        next
          case 2
          then have "t = [c] @ u \<and> [c] \<noteq> [] \<and> list_all P [c]" using Cons True by simp
          then show ?thesis by blast
        qed
      next
        assume "\<exists>w. t = w @ u \<and> w \<noteq> [] \<and> list_all P w"
        then obtain w where w: "t = w @ u" "w \<noteq> []" "list_all P w" by blast
        then obtain w' where w': "w = c # w'" using Cons by (cases w) auto
        then have v: "v = w' @ u" "list_all P w'" using w Cons by simp_all
        show "u \<in> set (plus_iter (char_step P) (Suc n) t)"
        proof (cases "w' = []")
          case True
          then show ?thesis using v eq by simp
        next
          case False
          then have "u \<in> set (plus_iter (char_step P) n v)" using v Suc.IH [OF len] by blast
          then show ?thesis using eq by simp
        qed
      qed
    qed
  qed
qed

lemma set_star_iter_step:
  "u \<in> set (star_iter (char_step P) t) \<longleftrightarrow> (\<exists>w. t = w @ u \<and> list_all P w)"
proof -
  have "u \<in> set (star_iter (char_step P) t) \<longleftrightarrow> (\<exists>w. t = w @ u \<and> w \<noteq> [] \<and> list_all P w) \<or> u = t"
    by (simp add: star_iter_def set_plus_iter_step) blast
  also have "\<dots> \<longleftrightarrow> (\<exists>w. t = w @ u \<and> list_all P w)"
  proof
    assume "(\<exists>w. t = w @ u \<and> w \<noteq> [] \<and> list_all P w) \<or> u = t"
    then show "\<exists>w. t = w @ u \<and> list_all P w"
    proof
      assume "u = t"
      then have "t = [] @ u \<and> list_all P []" by simp
      then show ?thesis by blast
    qed blast
  next
    assume "\<exists>w. t = w @ u \<and> list_all P w"
    then obtain w where "t = w @ u" "list_all P w" by blast
    then show "(\<exists>w. t = w @ u \<and> w \<noteq> [] \<and> list_all P w) \<or> u = t" by (cases "w = []") auto
  qed
  finally show ?thesis .
qed

lemma set_rests_Lit: "u \<in> set (rests subj (Lit a) t) \<longleftrightarrow> t = a # u"
  by (cases t) auto

lemma set_rests_CharSet: "u \<in> set (rests subj (CharSet cs) t) \<longleftrightarrow> (\<exists>c. t = c # u \<and> in_set cs c)"
  by (cases t) auto

lemma set_rests_Seq:
  "u \<in> set (rests subj (Seq r1 r2) t) \<longleftrightarrow>
     (\<exists>m. m \<in> set (rests subj r1 t) \<and> u \<in> set (rests subj r2 m))"
  by auto

lemma set_rests_Opt: "u \<in> set (rests subj (Opt r) t) \<longleftrightarrow> u \<in> set (rests subj r t) \<or> u = t"
  by auto

lemma set_rests_Bol: "u \<in> set (rests subj Bol t) \<longleftrightarrow> u = t \<and> length t = length subj"
  by auto

lemma set_rests_Eol: "u \<in> set (rests subj Eol t) \<longleftrightarrow> u = t \<and> (t = [] \<or> t = [10])"
  by auto

lemma set_rests_Repeat:
  "u \<in> set (rests subj (Repeat n (CharSet cs)) t) \<longleftrightarrow>
     (\<exists>w. t = w @ u \<and> length w = n \<and> list_all (in_set cs) w)"
  by (simp only: rests_Repeat_step set_rep_iter_step)

lemma set_rests_Plus:
  "u \<in> set (rests subj (Plus (CharSet cs)) t) \<longleftrightarrow>
     (\<exists>w. t = w @ u \<and> w \<noteq> [] \<and> list_all (in_set cs) w)"
  by (simp only: rests_Plus_step set_plus_iter_step [OF order_refl])

lemma set_rests_AtLeast:
  "u \<in> set (rests subj (AtLeast n (CharSet cs)) t) \<longleftrightarrow>
     (\<exists>w. t = w @ u \<and> n \<le> length w \<and> list_all (in_set cs) w)"
proof
  assume "u \<in> set (rests subj (AtLeast n (CharSet cs)) t)"
  then obtain m where m: "m \<in> set (rep_iter (char_step (in_set cs)) n t)"
      "u \<in> set (star_iter (char_step (in_set cs)) m)"
    unfolding rests_AtLeast_step by auto
  from m(1) obtain w1 where w1: "t = w1 @ m" "length w1 = n" "list_all (in_set cs) w1"
    by (auto simp: set_rep_iter_step)
  from m(2) obtain w2 where w2: "m = w2 @ u" "list_all (in_set cs) w2"
    by (auto simp: set_star_iter_step)
  have "t = (w1 @ w2) @ u \<and> n \<le> length (w1 @ w2) \<and> list_all (in_set cs) (w1 @ w2)"
    using w1 w2 by simp
  then show "\<exists>w. t = w @ u \<and> n \<le> length w \<and> list_all (in_set cs) w" by blast
next
  assume "\<exists>w. t = w @ u \<and> n \<le> length w \<and> list_all (in_set cs) w"
  then obtain w where w: "t = w @ u" "n \<le> length w" "list_all (in_set cs) w" by blast
  have "t = take n w @ (drop n w @ u) \<and> length (take n w) = n \<and> list_all (in_set cs) (take n w)"
    using w by (simp add: list_all_iff) (meson in_set_takeD)
  then have 1: "drop n w @ u \<in> set (rep_iter (char_step (in_set cs)) n t)"
    unfolding set_rep_iter_step by blast
  have "list_all (in_set cs) (drop n w)" using w(3) by (simp add: list_all_iff) (meson in_set_dropD)
  then have 2: "u \<in> set (star_iter (char_step (in_set cs)) (drop n w @ u))"
    unfolding set_star_iter_step by blast
  from 1 2 show "u \<in> set (rests subj (AtLeast n (CharSet cs)) t)"
    unfolding rests_AtLeast_step by auto
qed

lemma re_match_iff: "re_match p s \<longleftrightarrow> (\<exists>u. u \<in> set (rests s p s))"
  by (cases "rests s p s") (auto simp: re_match_def)

subsection \<open>The phone validator\<close>

lemma str_plus_91: "str ''+91'' = [ord CHR ''+'', ord CHR ''9'', ord CHR ''1'']"
  by (simp add: str_def)

lemma range_6_9: "in_set [Range (ord CHR ''6'') (ord CHR ''9'')] c \<longleftrightarrow> c \<in> set (str ''6789'')"
proof -
  have "54 \<le> c \<and> c \<le> 57 \<longleftrightarrow> c = 54 \<or> c = 55 \<or> c = 56 \<or> c = 57" by linarith
  then show ?thesis by (simp add: in_set_def ord_def str_def)
qed

lemma digit_class: "in_set [Digit] c \<longleftrightarrow> isdecimal c"
  by (simp add: in_set_def)

lemma sep_class: "in_set [Chr (ord CHR ''-''), Space] c \<longleftrightarrow> c = ord CHR ''-'' \<or> isspace c"
  by (simp add: in_set_def)

lemma decimal_number_Cons:
  "decimal_number (c # w) \<longleftrightarrow> c \<in> set (str ''6789'') \<and> length w = 9 \<and> list_all isdecimal w"
  by (auto simp: decimal_number_def)

lemma decimal_rests:
  "(\<exists>u. u \<in> set (rests subj
       (Seq (CharSet [Range (ord CHR ''6'') (ord CHR ''9'')]) (Seq (Repeat 9 (CharSet [Digit])) Eol)) m)) \<longleftrightarrow>
   (\<exists>body e. m = body @ e \<and> decimal_number body \<and> (e = [] \<or> e = [10]))"
proof
  assume "\<exists>u. u \<in> set (rests subj
       (Seq (CharSet [Range (ord CHR ''6'') (ord CHR ''9'')]) (Seq (Repeat 9 (CharSet [Digit])) Eol)) m)"
  then obtain u c w where "m = c # w @ u" "c \<in> set (str ''6789'')" "length w = 9"
      "list_all isdecimal w" "u = [] \<or> u = [10]"
    unfolding set_rests_Seq set_rests_CharSet set_rests_Repeat set_rests_Eol range_6_9 digit_class
    by blast
  then have "m = (c # w) @ u \<and> decimal_number (c # w) \<and> (u = [] \<or> u = [10])"
    by (simp add: decimal_number_Cons)
  then show "\<exists>body e. m = body @ e \<and> decimal_number body \<and> (e = [] \<or> e = [10])"
    by blast
next
  assume "\<exists>body e. m = body @ e \<and> decimal_number body \<and> (e = [] \<or> e = [10])"
  then obtain body e where b: "m = body @ e" "decimal_number body" "e = [] \<or> e = [10]"
    by blast
  then obtain c w where cw: "body = c # w" by (cases body) (auto simp: decimal_number_def)
  then have "c \<in> set (str ''6789'')" "length w = 9" "list_all isdecimal w"
    using b(2) by (simp_all add: decimal_number_Cons)
  then show "\<exists>u. u \<in> set (rests subj
       (Seq (CharSet [Range (ord CHR ''6'') (ord CHR ''9'')]) (Seq (Repeat 9 (CharSet [Digit])) Eol)) m)"
    unfolding set_rests_Seq set_rests_CharSet set_rests_Repeat set_rests_Eol range_6_9 digit_class
    using b(1,3) cw by (intro exI [of _ e] exI [of _ "w @ e"]) auto
qed

lemma prefix_rests:
  "m \<in> set (rests subj
      (Opt (Seq (Lit (ord CHR ''+'')) (Seq (Lit (ord CHR ''9'')) (Seq (Lit (ord CHR ''1''))
         (Opt (CharSet [Chr (ord CHR ''-''), Space])))))) t) \<longleftrightarrow>
   m = t \<or> t = str ''+91'' @ m \<or> (\<exists>sep. t = str ''+91'' @ sep # m \<and> (sep = ord CHR ''-'' \<or> isspace sep))"
  unfolding set_rests_Opt set_rests_Seq set_rests_Lit set_rests_CharSet sep_class str_plus_91
  by auto

lemma phone_match_iff:
  "re_match phone_pattern t \<longleftrightarrow>
     (\<exists>m body e. (m = t \<or> t = str ''+91'' @ m \<or>
                     (\<exists>sep. t = str ''+91'' @ sep # m \<and> (sep = ord CHR ''-'' \<or> isspace sep))) \<and>
                  m = body @ e \<and> decimal_number body \<and> (e = [] \<or> e = [10]))"
proof -
  define opt where "opt = Opt (Seq (Lit (ord CHR ''+'')) (Seq (Lit (ord CHR ''9'')) (Seq (Lit (ord CHR ''1''))
             (Opt (CharSet [Chr (ord CHR ''-''), Space])))))"
  define tail where "tail =
      Seq (CharSet [Range (ord CHR ''6'') (ord CHR ''9'')]) (Seq (Repeat 9 (CharSet [Digit])) Eol)"
  have p: "phone_pattern = Seq Bol (Seq opt tail)"
    by (simp only: phone_pattern_def opt_def tail_def)
  have "re_match phone_pattern t \<longleftrightarrow>
      (\<exists>u m1 m2. m1 \<in> set (rests t Bol t) \<and> m2 \<in> set (rests t opt m1) \<and>
          u \<in> set (rests t tail m2))"
    unfolding re_match_iff p set_rests_Seq by blast
  also have "\<dots> \<longleftrightarrow> (\<exists>m. m \<in> set (rests t opt t) \<and> (\<exists>u. u \<in> set (rests t tail m)))"
    unfolding set_rests_Bol by blast
  finally show ?thesis unfolding opt_def tail_def prefix_rests decimal_rests by blast
qed

lemma strip_no_trailing_space:
  assumes "strip s = x @ [c]"
  shows "\<not> isspace c"
proof -
  have "dropWhile isspace (rev (dropWhile isspace s)) = rev (strip s)" by (simp add: strip_def)
  also have "\<dots> = c # rev x" using assms by simp
  finally have "dropWhile isspace (rev (dropWhile isspace s)) = c # rev x" .
  then show ?thesis by (metis hd_dropWhile list.sel(1) list.distinct(1))
qed

lemma set_strip: "set (strip s) \<subseteq> set s"
proof -
  have "set (strip s) = set (dropWhile isspace (rev (dropWhile isspace s)))"
    by (simp add: strip_def)
  also have "\<dots> \<subseteq> set (rev (dropWhile isspace s))" by (auto dest: set_dropWhileD)
  also have "\<dots> \<subseteq> set s" by (auto dest: set_dropWhileD)
  finally show ?thesis .
qed

lemma newline_space: "isspace 10"
  by (simp add: isspace_def)

text \<open>
  The three ways in which a text \<open>t\<close> can end in a number \<open>m\<close>: as the number itself,
  after \<^verbatim>\<open>+91\<close>, or after \<^verbatim>\<open>+91\<close> and one separator.
\<close>

lemma prefixed_iff:
  "(\<exists>m. (m = t \<or> t = str ''+91'' @ m \<or>
          (\<exists>sep. t = str ''+91'' @ sep # m \<and> (sep = ord CHR ''-'' \<or> isspace sep))) \<and> N m) \<longleftrightarrow>
   N t \<or> (take 3 t = str ''+91'' \<and> N (drop 3 t)) \<or>
   (3 < length t \<and> take 3 t = str ''+91'' \<and> (t ! 3 = ord CHR ''-'' \<or> isspace (t ! 3)) \<and> N (drop 4 t))"
  (is "?lhs \<longleftrightarrow> ?rhs")
proof
  assume ?lhs
  then obtain m where m: "N m"
      "m = t \<or> t = str ''+91'' @ m \<or> (\<exists>sep. t = str ''+91'' @ sep # m \<and> (sep = ord CHR ''-'' \<or> isspace sep))"
    by blast
  from m(2) consider "m = t" | "t = str ''+91'' @ m"
    | sep where "t = str ''+91'' @ sep # m" "sep = ord CHR ''-'' \<or> isspace sep"
    by blast
  then show ?rhs
  proof cases
    case 1
    then show ?thesis using m(1) by simp
  next
    case 2
    then show ?thesis using m(1) by (simp add: str_def)
  next
    case 3
    then show ?thesis using m(1) by (simp add: str_def)
  qed
next
  assume ?rhs
  then consider "N t" | "take 3 t = str ''+91''" "N (drop 3 t)"
    | "3 < length t" "take 3 t = str ''+91''" "t ! 3 = ord CHR ''-'' \<or> isspace (t ! 3)" "N (drop 4 t)"
    by blast
  then show ?lhs
  proof cases
    case 1
    then show ?thesis by blast
  next
    case 2
    have "t = take 3 t @ drop 3 t" by simp
    then have "t = str ''+91'' @ drop 3 t" using 2(1) by simp
    then show ?thesis using 2(2) by blast
  next
    case 3
    have "t = take 3 t @ t ! 3 # drop 4 t"
      using 3(1) id_take_nth_drop [of 3 t] by simp
    then have "t = str ''+91'' @ t ! 3 # drop 4 t" using 3(2) by simp
    then show ?thesis using 3(3,4) by blast
  qed
qed

lemma phone_shape_unicode_iff:
  "phone_shape_unicode t \<longleftrightarrow>
     (\<exists>m. (m = t \<or> t = str ''+91'' @ m \<or>
             (\<exists>sep. t = str ''+91'' @ sep # m \<and> (sep = ord CHR ''-'' \<or> isspace sep))) \<and>
           decimal_number m)"
proof -
  have "length t = 14 \<and> decimal_number (drop 4 t) \<longleftrightarrow> 3 < length t \<and> decimal_number (drop 4 t)"
    by (auto simp: decimal_number_def)
  then show ?thesis unfolding prefixed_iff phone_shape_unicode_def by blast
qed

lemma phone_shape_sep_iff:
  "phone_shape_sep t \<longleftrightarrow>
     (\<exists>m. (m = t \<or> t = str ''+91'' @ m \<or>
             (\<exists>sep. t = str ''+91'' @ sep # m \<and> (sep = ord CHR ''-'' \<or> isspace sep))) \<and>
           national_number m)"
proof -
  have "length t = 14 \<and> national_number (drop 4 t) \<longleftrightarrow> 3 < length t \<and> national_number (drop 4 t)"
    by (auto simp: national_number_def)
  then show ?thesis unfolding prefixed_iff phone_shape_sep_def phone_shape_def by blast
qed

text \<open>
  What \<^verbatim>\<open>validate_phone\<close> accepts on all of Unicode. A match that stops before a final
  newline does not occur here, since the text is stripped first.
\<close>

lemma validate_phone_iff: "validate_phone s \<longleftrightarrow> phone_shape_unicode (strip s)"
proof -
  have "re_match phone_pattern (strip s) \<longleftrightarrow>
     (\<exists>m. (m = strip s \<or> strip s = str ''+91'' @ m \<or>
             (\<exists>sep. strip s = str ''+91'' @ sep # m \<and> (sep = ord CHR ''-'' \<or> isspace sep))) \<and>
           decimal_number m)"
  proof
    assume "re_match phone_pattern (strip s)"
    then obtain m body e where m:
        "m = strip s \<or> strip s = str ''+91'' @ m \<or>
          (\<exists>sep. strip s = str ''+91'' @ sep # m \<and> (sep = ord CHR ''-'' \<or> isspace sep))"
        "m = body @ e" "decimal_number body" "e = [] \<or> e = [10]"
      unfolding phone_match_iff by blast
    have "e = []"
    proof (rule ccontr)
      assume "e \<noteq> []"
      then have e: "e = [10]" using m(4) by simp
      from m(1) obtain pre where "strip s = pre @ m" by (elim disjE exE conjE) auto
      then have "strip s = (pre @ body) @ [10]" using m(2) e by simp
      then have "\<not> isspace 10" by (rule strip_no_trailing_space)
      then show False using newline_space by simp
    qed
    then have "decimal_number m" using m(2,3) by simp
    then show "\<exists>m. (m = strip s \<or> strip s = str ''+91'' @ m \<or>
             (\<exists>sep. strip s = str ''+91'' @ sep # m \<and> (sep = ord CHR ''-'' \<or> isspace sep))) \<and>
           decimal_number m"
      using m(1) by blast
  next
    assume "\<exists>m. (m = strip s \<or> strip s = str ''+91'' @ m \<or>
             (\<exists>sep. strip s = str ''+91'' @ sep # m \<and> (sep = ord CHR ''-'' \<or> isspace sep))) \<and>
           decimal_number m"
    then obtain m where m: "decimal_number m"
        "m = strip s \<or> strip s = str ''+91'' @ m \<or>
          (\<exists>sep. strip s = str ''+91'' @ sep # m \<and> (sep = ord CHR ''-'' \<or> isspace sep))"
      by blast
    have "m = m @ [] \<and> decimal_number m \<and> ([] = [] \<or> [] = [10])" using m(1) by simp
    then show "re_match phone_pattern (strip s)"
      unfolding phone_match_iff using m(2) by blast
  qed
  then show ?thesis by (simp only: validate_phone_def phone_shape_unicode_iff)
qed

lemma example_phone: "validate_phone (str ''9876543210'')"
proof -
  have "strip (str ''9876543210'') = str ''9876543210''"
    by (simp add: strip_def str_def ord_def isspace_def)
  then show ?thesis
    unfolding validate_phone_iff
    by (simp add: phone_shape_unicode_def decimal_number_def str_def ord_def isdecimal_def
        decimal_zeros_def)
qed

lemma ascii_digit_decimal: "ascii_digit c \<Longrightarrow> isdecimal c"
  by (simp add: ascii_digit_def isdecimal_def decimal_zeros_def)

lemma six_to_nine_digit: "c \<in> set (str ''6789'') \<Longrightarrow> ascii_digit c"
  by (auto simp: ascii_digit_def str_def ord_def)

text \<open>
  On a text whose decimal digits are all among \<^verbatim>\<open>0\<close> to \<^verbatim>\<open>9\<close>, a number of the pattern
  is a national number.
\<close>

lemma decimal_number_plain:
  assumes "\<forall>c \<in> set m. isdecimal c \<longrightarrow> ascii_digit c"
  shows "decimal_number m \<longleftrightarrow> national_number m"
proof (cases m)
  case Nil
  then show ?thesis by (simp add: decimal_number_def national_number_def)
next
  case (Cons c w)
  have "list_all isdecimal w \<longleftrightarrow> list_all ascii_digit w"
    using assms Cons ascii_digit_decimal by (auto simp: list_all_iff)
  then show ?thesis
    using Cons six_to_nine_digit [of c] by (auto simp: decimal_number_def national_number_def)
qed

text \<open>
  Claim C7, as amended. For a text whose decimal digits are all among \<^verbatim>\<open>0\<close> to \<^verbatim>\<open>9\<close>,
  \<^verbatim>\<open>validate_phone\<close> accepts it exactly when, after trimming the surrounding whitespace, it
  is an optional \<^verbatim>\<open>+91\<close>, optionally followed by one hyphen or one whitespace character,
  followed by exactly 10 digits whose first is 6, 7, 8 or 9. The function is a function of
  its argument alone.
\<close>

theorem validate_phone_shape:
  assumes "plain_digits s"
  shows "validate_phone s \<longleftrightarrow> phone_shape_sep (strip s)"
proof -
  have plain: "\<forall>c \<in> set m. isdecimal c \<longrightarrow> ascii_digit c" if "set m \<subseteq> set (strip s)" for m
    using assms that set_strip [of s] by (auto simp: plain_digits_def list_all_iff)
  have "decimal_number m \<longleftrightarrow> national_number m"
    if "m = strip s \<or> strip s = str ''+91'' @ m \<or>
          (\<exists>sep. strip s = str ''+91'' @ sep # m \<and> (sep = ord CHR ''-'' \<or> isspace sep))" for m
  proof -
    from that have "set m \<subseteq> set (strip s)" by auto
    then show ?thesis by (intro decimal_number_plain plain)
  qed
  then have "phone_shape_unicode (strip s) \<longleftrightarrow> phone_shape_sep (strip s)"
    unfolding phone_shape_unicode_iff phone_shape_sep_iff by blast
  then show ?thesis by (simp only: validate_phone_iff)
qed

lemma strip_examples:
  "strip (str ''9876543210'') = str ''9876543210''"
  "strip (str ''1234567890'') = str ''1234567890''"
  "strip (str ''+919876543210'') = str ''+919876543210''"
  "strip (str ''  +91 9876543210 '') = str ''+91 9876543210''"
  "strip (str ''+91-9876543210'') = str ''+91-9876543210''"
  by (simp_all add: strip_def str_def ord_def isspace_def)

lemma phone_examples:
  "phone_shape_sep (strip (str ''9876543210''))"
  "\<not> phone_shape_sep (strip (str ''1234567890''))"
  "phone_shape_sep (strip (str ''+919876543210''))"
  "phone_shape_sep (strip (str ''  +91 9876543210 ''))"
  unfolding strip_examples
  by (simp_all add: phone_shape_sep_def phone_shape_def national_number_def str_def ord_def
      ascii_digit_def isspace_def)

lemma plain_examples:
  "plain_digits (str ''9876543210'')" "plain_digits (str ''1234567890'')"
  "plain_digits (str ''+919876543210'')" "plain_digits (str ''  +91 9876543210 '')"
  by (simp_all add: plain_digits_def str_def ord_def isdecimal_def decimal_zeros_def ascii_digit_def)

theorem validate_phone_shape_witness:
  "validate_phone (str ''9876543210'') \<and> \<not> validate_phone (str ''1234567890'') \<and>
   validate_phone (str ''+919876543210'') \<and> validate_phone (str ''  +91 9876543210 '')"
  using phone_examples
  by (simp only: validate_phone_shape [OF plain_examples(1)] validate_phone_shape [OF plain_examples(2)]
      validate_phone_shape [OF plain_examples(3)] validate_phone_shape [OF plain_examples(4)])
    simp

lemma hyphen_accepted: "validate_phone (str ''+91-9876543210'')"
  unfolding validate_phone_iff strip_examples
  by (simp add: phone_shape_unicode_def decimal_number_def str_def ord_def isdecimal_def
      decimal_zeros_def isspace_def)

lemma hyphen_not_in_shape: "\<not> phone_shape (strip (str ''+91-9876543210''))"
  unfolding strip_examples
  by (simp add: phone_shape_def national_number_def str_def ord_def ascii_digit_def)

text \<open>
  The claim as stated, without the separator, fails: \<^verbatim>\<open>+91-9876543210\<close> is accepted.
\<close>

theorem validate_phone_separator_counterexample:
  "validate_phone (str ''+91-9876543210'') \<and> \<not> phone_shape (strip (str ''+91-9876543210''))"
  using hyphen_accepted hyphen_not_in_shape by simp

text \<open>
  On all of Unicode, \<^verbatim>\<open>validate_phone\<close> accepts a text exactly when, after trimming, it is
  an optional \<^verbatim>\<open>+91\<close>, an optional hyphen or whitespace character, one of the digits
  \<^verbatim>\<open>6\<close> to \<^verbatim>\<open>9\<close> and nine decimal digits of any script.
\<close>

theorem validate_phone_unicode: "validate_phone s \<longleftrightarrow> phone_shape_unicode (strip s)"
  by (rule validate_phone_iff)

lemma strip_arabic_indic: "strip arabic_indic_phone = arabic_indic_phone"
  by (simp add: strip_def arabic_indic_phone_def isspace_def)

lemma arabic_indic_accepted: "validate_phone arabic_indic_phone"
  unfolding validate_phone_iff strip_arabic_indic
  by (simp add: phone_shape_unicode_def decimal_number_def arabic_indic_phone_def str_def ord_def
      isdecimal_def decimal_zeros_def)

lemma arabic_indic_not_in_shape: "\<not> phone_shape_sep (strip arabic_indic_phone)"
  unfolding strip_arabic_indic
  by (simp add: phone_shape_sep_def phone_shape_def national_number_def arabic_indic_phone_def
      str_def ord_def ascii_digit_def)

text \<open>
  The class \<^verbatim>\<open>\d\<close> is not restricted to ASCII: the digit 9 followed by nine Arabic-Indic
  digits is accepted, although it is not a number of ten digits \<^verbatim>\<open>0\<close> to \<^verbatim>\<open>9\<close>.
\<close>

theorem validate_phone_arabic_indic:
  "validate_phone arabic_indic_phone \<and> \<not> phone_shape_sep (strip arabic_indic_phone)"
  using arabic_indic_accepted arabic_indic_not_in_shape by simp

subsection \<open>The email validator\<close>

lemma str_at: "str ''@'' = [ord CHR ''@'']" and str_dot: "str ''.'' = [ord CHR ''.'']"
  by (simp_all add: str_def)

lemma letters_class: "in_set letters = ascii_letter"
  by (rule ext) (auto simp: in_set_def letters_def ascii_letter_def ord_def)

lemma local_class:
  "in_set (alnum @ [Chr (ord CHR ''.''), Chr (ord CHR ''_''), Chr (ord CHR ''%''),
                    Chr (ord CHR ''+''), Chr (ord CHR ''-'')]) = local_char"
  by (rule ext)
    (auto simp: in_set_def alnum_def letters_def local_char_def ascii_letter_def ascii_digit_def
      ord_def str_def)

lemma domain_class:
  "in_set (alnum @ [Chr (ord CHR ''.''), Chr (ord CHR ''-'')]) = domain_char"
  by (rule ext)
    (auto simp: in_set_def alnum_def letters_def domain_char_def ascii_letter_def ascii_digit_def
      ord_def str_def)

lemma email_match_iff:
  "re_match email_pattern s \<longleftrightarrow>
     (\<exists>local dom tld e. s = local @ str ''@'' @ dom @ str ''.'' @ tld @ e \<and>
        local \<noteq> [] \<and> list_all local_char local \<and>
        dom \<noteq> [] \<and> list_all domain_char dom \<and>
        2 \<le> length tld \<and> list_all ascii_letter tld \<and> (e = [] \<or> e = [10]))"
  (is "_ \<longleftrightarrow> ?shape")
proof
  assume "re_match email_pattern s"
  then obtain m1 m2 m3 m4 m5 m6 u where
      "m1 \<in> set (rests s Bol s)"
      "m2 \<in> set (rests s (Plus (CharSet (alnum @ [Chr (ord CHR ''.''), Chr (ord CHR ''_''), Chr (ord CHR ''%''),
         Chr (ord CHR ''+''), Chr (ord CHR ''-'')]))) m1)"
      "m3 \<in> set (rests s (Lit (ord CHR ''@'')) m2)"
      "m4 \<in> set (rests s (Plus (CharSet (alnum @ [Chr (ord CHR ''.''), Chr (ord CHR ''-'')]))) m3)"
      "m5 \<in> set (rests s (Lit (ord CHR ''.'')) m4)"
      "m6 \<in> set (rests s (AtLeast 2 (CharSet letters)) m5)"
      "u \<in> set (rests s Eol m6)"
    unfolding re_match_iff email_pattern_def set_rests_Seq by blast
  then obtain w1 w2 w3 where
      "s = w1 @ m2" "w1 \<noteq> []" "list_all local_char w1"
      "m2 = ord CHR ''@'' # m3"
      "m3 = w2 @ m4" "w2 \<noteq> []" "list_all domain_char w2"
      "m4 = ord CHR ''.'' # m5"
      "m5 = w3 @ m6" "2 \<le> length w3" "list_all ascii_letter w3"
      "m6 = [] \<or> m6 = [10]"
    unfolding set_rests_Bol set_rests_Plus set_rests_Lit set_rests_AtLeast set_rests_Eol
      local_class domain_class letters_class
    by blast
  then have "s = w1 @ str ''@'' @ w2 @ str ''.'' @ w3 @ m6 \<and> w1 \<noteq> [] \<and> list_all local_char w1 \<and>
      w2 \<noteq> [] \<and> list_all domain_char w2 \<and> 2 \<le> length w3 \<and> list_all ascii_letter w3 \<and>
      (m6 = [] \<or> m6 = [10])"
    by (simp add: str_at str_dot)
  then show ?shape by blast
next
  assume ?shape
  then obtain w1 w2 w3 e where w:
      "s = w1 @ str ''@'' @ w2 @ str ''.'' @ w3 @ e" "w1 \<noteq> []" "list_all local_char w1"
      "w2 \<noteq> []" "list_all domain_char w2" "2 \<le> length w3" "list_all ascii_letter w3"
      "e = [] \<or> e = [10]"
    by blast
  have 1: "s \<in> set (rests s Bol s)" by (simp add: set_rests_Bol)
  have 2: "ord CHR ''@'' # w2 @ str ''.'' @ w3 @ e \<in> set (rests s
      (Plus (CharSet (alnum @ [Chr (ord CHR ''.''), Chr (ord CHR ''_''), Chr (ord CHR ''%''),
         Chr (ord CHR ''+''), Chr (ord CHR ''-'')]))) s)"
    unfolding set_rests_Plus local_class using w(1,2,3) by (intro exI [of _ w1]) (simp add: str_at)
  have 3: "w2 @ str ''.'' @ w3 @ e \<in> set (rests s (Lit (ord CHR ''@'')) (ord CHR ''@'' # w2 @ str ''.'' @ w3 @ e))"
    unfolding set_rests_Lit ..
  have 4: "ord CHR ''.'' # w3 @ e \<in> set (rests s (Plus (CharSet (alnum @ [Chr (ord CHR ''.''), Chr (ord CHR ''-'')])))
      (w2 @ str ''.'' @ w3 @ e))"
    unfolding set_rests_Plus domain_class using w(4,5) by (intro exI [of _ w2]) (simp add: str_dot)
  have 5: "w3 @ e \<in> set (rests s (Lit (ord CHR ''.'')) (ord CHR ''.'' # w3 @ e))"
    unfolding set_rests_Lit ..
  have 6: "e \<in> set (rests s (AtLeast 2 (CharSet letters)) (w3 @ e))"
    unfolding set_rests_AtLeast letters_class using w(6,7) by (intro exI [of _ w3]) simp
  have 7: "e \<in> set (rests s Eol e)" unfolding set_rests_Eol using w(8) by simp
  show "re_match email_pattern s"
    unfolding re_match_iff email_pattern_def set_rests_Seq
    using 1 2 3 4 5 6 7 by blast
qed

lemma validate_email_iff:
  "validate_email s \<longleftrightarrow> email_shape s \<or> (\<exists>t. s = t @ [10] \<and> email_shape t)"
proof
  assume "validate_email s"
  then obtain w1 w2 w3 e where w:
      "s = w1 @ str ''@'' @ w2 @ str ''.'' @ w3 @ e" "w1 \<noteq> []" "list_all local_char w1"
      "w2 \<noteq> []" "list_all domain_char w2" "2 \<le> length w3" "list_all ascii_letter w3"
      "e = [] \<or> e = [10]"
    unfolding validate_email_def email_match_iff by blast
  have shape: "email_shape (w1 @ str ''@'' @ w2 @ str ''.'' @ w3)"
    unfolding email_shape_def using w(2-7) by blast
  from w(8) show "email_shape s \<or> (\<exists>t. s = t @ [10] \<and> email_shape t)"
  proof
    assume "e = []"
    then show ?thesis using shape w(1) by simp
  next
    assume "e = [10]"
    then have "s = (w1 @ str ''@'' @ w2 @ str ''.'' @ w3) @ [10]" using w(1) by simp
    then show ?thesis using shape by blast
  qed
next
  assume "email_shape s \<or> (\<exists>t. s = t @ [10] \<and> email_shape t)"
  then obtain t e where te: "s = t @ e" "email_shape t" "e = [] \<or> e = [10]"
    by (metis append_Nil2)
  from te(2) obtain w1 w2 w3 where w:
      "t = w1 @ str ''@'' @ w2 @ str ''.'' @ w3" "w1 \<noteq> []" "list_all local_char w1"
      "w2 \<noteq> []" "list_all domain_char w2" "2 \<le> length w3" "list_all ascii_letter w3"
    unfolding email_shape_def by blast
  have "s = w1 @ str ''@'' @ w2 @ str ''.'' @ w3 @ e" using te(1) w(1) by simp
  then show "validate_email s"
    unfolding validate_email_def email_match_iff using w(2-7) te(3) by blast
qed

lemma email_shape_last_letter:
  assumes "email_shape s"
  shows "s \<noteq> [] \<and> ascii_letter (last s)"
proof -
  from assms obtain w1 w2 w3 where w:
      "s = w1 @ str ''@'' @ w2 @ str ''.'' @ w3" "2 \<le> length w3" "list_all ascii_letter w3"
    unfolding email_shape_def by blast
  have w3: "w3 \<noteq> []" using w(2) by auto
  then have "last s = last w3" "last w3 \<in> set w3" using w(1) by simp_all
  then show ?thesis using w(1,3) w3 by (simp add: list_all_iff)
qed

lemma example_email: "validate_email (str ''a@b.co'')"
  by code_simp

lemma bad_email: "\<not> validate_email (str ''bad@'')"
  by code_simp

lemma newline_accepted: "validate_email (str ''a@b.co'' @ [10])"
  by code_simp

lemma newline_not_letter: "\<not> ascii_letter 10"
  by (simp add: ascii_letter_def)

lemma plain_shape: "email_shape (str ''a@b.co'')"
proof -
  have "str ''a@b.co'' = str ''a'' @ str ''@'' @ str ''b'' @ str ''.'' @ str ''co'' \<and>
      str ''a'' \<noteq> [] \<and> list_all local_char (str ''a'') \<and>
      str ''b'' \<noteq> [] \<and> list_all domain_char (str ''b'') \<and>
      2 \<le> length (str ''co'') \<and> list_all ascii_letter (str ''co'')"
    by (simp add: local_char_def domain_char_def ascii_letter_def str_def ord_def)
  then show ?thesis unfolding email_shape_def by blast
qed

text \<open>
  Claim C6. The claim holds on its two examples but not in general: \<^verbatim>\<open>$\<close> also matches
  before a final newline, so \<^verbatim>\<open>validate_email\<close> accepts \<^verbatim>\<open>a@b.co\<close> followed by a newline,
  which does not have the shape (its last character is not a letter).
\<close>

theorem validate_email_trailing_newline:
  "validate_email (str ''a@b.co'' @ [10]) \<and> \<not> email_shape (str ''a@b.co'' @ [10]) \<and>
   validate_email (str ''a@b.co'') \<and> email_shape (str ''a@b.co'') \<and> \<not> validate_email (str ''bad@'')"
proof -
  have "\<not> email_shape (str ''a@b.co'' @ [10])"
    using email_shape_last_letter [of "str ''a@b.co'' @ [10]"] newline_not_letter by auto
  then show ?thesis using newline_accepted example_email bad_email plain_shape by simp
qed

text \<open>
  What \<^verbatim>\<open>validate_email\<close> accepts, exactly: the strings of the shape, and those strings
  followed by one newline.
\<close>

theorem validate_email_characterisation:
  "validate_email s \<longleftrightarrow> email_shape s \<or> (\<exists>t. s = t @ [10] \<and> email_shape t)"
  by (rule validate_email_iff)

subsection \<open>The booking form, branch by branch\<close>

lemma load_data_eq: "load_data f = Inr (records f, load_shown f)"
  by (cases f) (simp_all add: records_def load_shown_def load_data_def os_path_exists_def
      json_load_def bind_exn_def)

lemma records_Stored [simp]: "records (Stored xs) = xs"
  by (simp add: records_def load_data_def os_path_exists_def json_load_def bind_exn_def)

lemma records_save_data [simp]: "records (save_data xs) = xs"
  by (simp add: save_data_def)

lemma load_shown_no_success: "\<not> list_ex is_success (load_shown f)"
  by (cases f) (simp_all add: load_shown_def load_data_def os_path_exists_def
      json_load_def bind_exn_def is_success_def)

lemma spec_base_price_le: "spec_base_price rt \<le> 15000"
  by (simp add: spec_base_price_def)

lemma form_undiscounted_small:
  assumes "0 < n" and "n \<le> 3652058" and "1 \<le> g" and "g \<le> 6"
  shows "undiscounted rt n g < 2 ^ 53"
proof -
  have "spec_base_price rt * n \<le> 15000 * n"
    using spec_base_price_le [of rt] assms(1) by (simp add: mult_right_mono)
  moreover define m where "m = max 0 (g - 2) * n"
  moreover have "m \<le> 4 * n"
    unfolding m_def using assms by (intro mult_right_mono) simp_all
  moreover have "undiscounted rt n g = spec_base_price rt * n + 500 * m"
    by (simp add: undiscounted_def m_def)
  ultimately have "undiscounted rt n g \<le> 17000 * n" by linarith
  then show ?thesis using assms(2) by simp
qed

lemma form_amount:
  assumes "0 < days_between a b"
  shows "calculate_booking_amount rt (days_between a b) (Rep_guest_count g) =
         Inr (exact_amount rt (days_between a b) (Rep_guest_count g))"
proof -
  have a: "1 \<le> Rep_date a" "Rep_date b \<le> 3652059" using Rep_date [of a] Rep_date [of b] by simp_all
  have g: "1 \<le> Rep_guest_count g" "Rep_guest_count g \<le> 6" using Rep_guest_count [of g] by simp_all
  have n: "days_between a b \<le> 3652058" using a by (simp add: days_between_def)
  have "undiscounted rt (days_between a b) (Rep_guest_count g) < 2 ^ 53"
    using assms n g by (rule form_undiscounted_small)
  then show ?thesis
    unfolding exact_amount_def using assms g(1)
    by (intro calculate_booking_amount_value) simp_all
qed

lemma price_preview_eq:
  "price_preview f =
     (let n = days_between (form_check_in f) (form_check_out f) in
      Inr ((if form_room_type f \<noteq> [] then Some n else None,
            if form_room_type f \<noteq> [] \<and> 0 < n
            then Some (exact_amount (form_room_type f) n (Rep_guest_count (form_guests f))) else None),
           preview_shown f))"
  by (simp add: price_preview_def preview_shown_def Let_def form_amount bind_exn_def)

lemma validation_errors_Nil: "validation_errors f = [] \<longleftrightarrow> validations_pass f"
  by (auto simp: validation_errors_def validations_pass_def name_present_def email_acceptable_def
      phone_acceptable_def dates_ordered_def)

lemma submit_booking_rejected:
  assumes "\<not> validations_pass f"
  shows "submit_booking clk f rooms st = Inr (preview_shown f @ map Error (validation_errors f), st)"
  using assms
  by (simp add: submit_booking_def price_preview_eq Let_def bind_exn_def validation_errors_Nil)

lemma submit_booking_no_room:
  assumes "validations_pass f" and "select_room rooms (form_room_type f) = None"
  shows "submit_booking clk f rooms st = Inr (preview_shown f, st)"
  using assms
  by (simp add: submit_booking_def price_preview_eq Let_def bind_exn_def validation_errors_Nil)

lemma submit_booking_unbound:
  assumes "validations_pass f" and "select_room rooms (form_room_type f) = Some sel"
    and "form_room_type f = []"
  shows "submit_booking clk f rooms st = Inl UnboundLocalError"
  using assms
  by (simp add: submit_booking_def price_preview_eq Let_def bind_exn_def validation_errors_Nil)

lemma submit_booking_confirmed:
  assumes "validations_pass f" and "select_room rooms (form_room_type f) = Some sel"
    and "form_room_type f \<noteq> []"
  shows "submit_booking clk f rooms st =
     Inr (preview_shown f @ load_shown (bookings_file st) @ load_shown (customers_file st) @
            [Success (''Booking confirmed! Booking ID: '' @ booking_id (new_booking clk f sel)), Balloons],
          st\<lparr>bookings_file := Stored (records (bookings_file st) @ [new_booking clk f sel]),
             rooms_file := Stored (occupy rooms sel),
             customers_file :=
               (if list_ex (\<lambda>c. email c = form_customer_email f) (records (customers_file st))
                then customers_file st
                else Stored (records (customers_file st) @ [make_customer clk f]))\<rparr>)"
proof -
  have n: "0 < days_between (form_check_in f) (form_check_out f)"
    using assms(1) by (simp add: validations_pass_def dates_ordered_def days_between_def)
  show ?thesis
    using assms n
    by (simp add: submit_booking_def price_preview_eq Let_def bind_exn_def validation_errors_Nil
        confirm_booking_def load_data_eq new_booking_def save_data_def)
qed

subsection \<open>Facts about the example data\<close>

lemma example_name: "strip (str ''Asha Rao'') \<noteq> []"
  by (simp add: strip_def str_def ord_def isspace_def)

lemma strip_email: "strip (str ''a@b.co'') \<noteq> []"
  by (simp add: strip_def str_def ord_def isspace_def)

lemma strip_phone: "strip (str ''9876543210'') \<noteq> []"
  by (simp add: strip_def str_def ord_def isspace_def)

lemma example_dates:
  "Rep_date (Abs_date 739000) = 739000" "Rep_date (Abs_date 739001) = 739001"
  by (simp_all add: Abs_date_inverse)

lemma example_guests: "Rep_guest_count (Abs_guest_count 2) = 2"
  by (simp add: Abs_guest_count_inverse)

lemma example_form_valid: "validations_pass example_form"
  by (simp add: validations_pass_def name_present_def email_acceptable_def phone_acceptable_def
      dates_ordered_def example_form_def example_email example_phone example_name strip_email
      strip_phone example_dates)

lemma example_select: "select_room default_rooms ''Standard'' = Some (default_rooms ! 0)"
  by (simp add: select_room_def available_rooms_def default_rooms_def)

subsection \<open>Rejected and confirmed submissions\<close>

lemma preview_shown_cases: "preview_shown f = [] \<or> (\<exists>a n. preview_shown f = [Info a n])"
  by (simp add: preview_shown_def Let_def)

lemma preview_no_error: "Error text \<notin> set (preview_shown f)"
  using preview_shown_cases [of f] by auto

lemma preview_no_success: "\<not> list_ex is_success (preview_shown f)"
  using preview_shown_cases [of f] by (auto simp: is_success_def)

lemma errors_no_success: "\<not> list_ex is_success (map Error errs)"
  by (induction errs) (simp_all add: is_success_def)

text \<open>A confirmation is shown only on the path that books.\<close>

lemma confirmed_path:
  assumes "submit_booking clk f rooms st = Inr (shown, st')" and "booking_confirmed shown"
  obtains sel where "validations_pass f" and "select_room rooms (form_room_type f) = Some sel"
    and "form_room_type f \<noteq> []"
proof (cases "validations_pass f")
  case False
  then have "shown = preview_shown f @ map Error (validation_errors f)"
    using assms(1) by (simp add: submit_booking_rejected)
  then show ?thesis
    using assms(2) preview_no_success errors_no_success by (simp add: booking_confirmed_def)
next
  case True
  show ?thesis
  proof (cases "select_room rooms (form_room_type f)")
    case None
    then have "shown = preview_shown f"
      using assms(1) True by (simp add: submit_booking_no_room)
    then show ?thesis using assms(2) preview_no_success by (simp add: booking_confirmed_def)
  next
    case (Some sel)
    then have "form_room_type f \<noteq> []"
      using assms(1) True submit_booking_unbound [of f rooms sel clk st] by auto
    then show ?thesis using that True Some by blast
  qed
qed

lemma select_room_Some:
  assumes "select_room rooms rt = Some sel"
  shows "sel \<in> set rooms" and "room_type sel = rt" and "status sel = ''Available''"
proof -
  from assms obtain i where i: "i < length (available_rooms rooms)"
      "room_type (available_rooms rooms ! i) = rt" "sel = available_rooms rooms ! i"
    by (auto simp: select_room_def find_Some_iff)
  then have "sel \<in> set (available_rooms rooms)" by simp
  then show "sel \<in> set rooms" "status sel = ''Available''" by (simp_all add: available_rooms_def)
  show "room_type sel = rt" using i by simp
qed

lemma select_room_exists:
  assumes "r \<in> set rooms" and "room_type r = rt" and "status r = ''Available''"
  shows "\<exists>sel. select_room rooms rt = Some sel"
proof (cases "select_room rooms rt")
  case None
  then have "\<not> (\<exists>x. x \<in> set (available_rooms rooms) \<and> room_type x = rt)"
    by (simp add: select_room_def find_None_iff)
  then show ?thesis using assms by (simp add: available_rooms_def)
next
  case (Some sel)
  then show ?thesis by simp
qed

lemma occupy_length: "length (occupy rooms sel) = length rooms"
  by (simp add: occupy_def)

lemma occupy_nth:
  "i < length rooms \<Longrightarrow>
   occupy rooms sel ! i =
     (if room_number (rooms ! i) = room_number sel then (rooms ! i)\<lparr>status := ''Occupied''\<rparr>
      else rooms ! i)"
  by (simp add: occupy_def)

text \<open>
  Claim C3. When any of the four checks fails, the submission shows the error of every
  failing check and of no passing one (it does not stop at the first failure), confirms
  nothing, and returns the store it was given: bookings, rooms and customers are unchanged.
\<close>

theorem submit_booking_rejects_invalid:
  assumes "\<not> validations_pass f"
  shows "\<exists>shown. submit_booking clk f rooms st = Inr (shown, st) \<and>
     (Error ''Customer name is required'' \<in> set shown \<longleftrightarrow> \<not> name_present f) \<and>
     (Error ''Valid email address is required'' \<in> set shown \<longleftrightarrow> \<not> email_acceptable f) \<and>
     (Error ''Valid phone number is required'' \<in> set shown \<longleftrightarrow> \<not> phone_acceptable f) \<and>
     (Error ''Check-out date must be after check-in date'' \<in> set shown \<longleftrightarrow> \<not> dates_ordered f) \<and>
     \<not> booking_confirmed shown"
proof -
  define shown where "shown = preview_shown f @ map Error (validation_errors f)"
  have mem: "Error msg \<in> set shown \<longleftrightarrow> msg \<in> set (validation_errors f)" for msg
    using preview_no_error [of msg f] by (auto simp: shown_def)
  have 1: "Error ''Customer name is required'' \<in> set shown \<longleftrightarrow> \<not> name_present f"
    unfolding mem by (simp add: validation_errors_def name_present_def)
  have 2: "Error ''Valid email address is required'' \<in> set shown \<longleftrightarrow> \<not> email_acceptable f"
    unfolding mem by (simp add: validation_errors_def email_acceptable_def)
  have 3: "Error ''Valid phone number is required'' \<in> set shown \<longleftrightarrow> \<not> phone_acceptable f"
    unfolding mem by (simp add: validation_errors_def phone_acceptable_def)
  have 4: "Error ''Check-out date must be after check-in date'' \<in> set shown \<longleftrightarrow> \<not> dates_ordered f"
    unfolding mem by (auto simp: validation_errors_def dates_ordered_def)
  have 5: "\<not> booking_confirmed shown"
    using preview_no_success [of f] errors_no_success [of "validation_errors f"]
    by (simp add: booking_confirmed_def shown_def)
  have "submit_booking clk f rooms st = Inr (shown, st)"
    using assms by (simp add: submit_booking_rejected shown_def)
  with 1 2 3 4 5 show ?thesis by blast
qed

lemma blank_name: "strip (str ''  '') = []"
  by (simp add: strip_def str_def ord_def isspace_def)

theorem submit_booking_rejects_invalid_witness:
  "\<exists>shown. submit_booking example_clock invalid_form default_rooms fresh_store = Inr (shown, fresh_store) \<and>
     Error ''Customer name is required'' \<in> set shown \<and>
     Error ''Check-out date must be after check-in date'' \<in> set shown \<and>
     Error ''Valid email address is required'' \<notin> set shown \<and>
     Error ''Valid phone number is required'' \<notin> set shown"
proof -
  have 1: "\<not> name_present invalid_form"
    by (simp add: name_present_def invalid_form_def blank_name)
  have 2: "\<not> dates_ordered invalid_form"
    by (simp add: dates_ordered_def invalid_form_def example_form_def example_dates)
  have 3: "email_acceptable invalid_form"
    by (simp add: email_acceptable_def invalid_form_def example_form_def example_email strip_email)
  have 4: "phone_acceptable invalid_form"
    by (simp add: phone_acceptable_def invalid_form_def example_form_def example_phone strip_phone)
  have "\<not> validations_pass invalid_form" using 1 by (simp add: validations_pass_def)
  from submit_booking_rejects_invalid [OF this, of example_clock default_rooms fresh_store]
  show ?thesis using 1 2 3 4 by auto
qed

text \<open>
  Claim C8. On every confirmed booking: if the customers collection holds a record with the
  email of the form, the customers file is left as it is (whatever name, phone or address
  the form carries); otherwise exactly one record, built from the form, is appended.
\<close>

theorem submit_booking_customer_record:
  assumes "submit_booking clk f rooms st = Inr (shown, st')" and "booking_confirmed shown"
  shows "if \<exists>c \<in> set (records (customers_file st)). email c = form_customer_email f
         then customers_file st' = customers_file st
         else records (customers_file st') =
                records (customers_file st) @
                  [\<lparr>name = form_customer_name f, email = form_customer_email f,
                    phone = form_customer_phone f, address = form_customer_address f,
                    registration_date = strftime_iso (now_registration clk)\<rparr>]"
proof -
  from assms obtain sel where "validations_pass f"
      "select_room rooms (form_room_type f) = Some sel" "form_room_type f \<noteq> []"
    by (rule confirmed_path)
  from submit_booking_confirmed [OF this, of clk st] assms(1)
  have "customers_file st' =
      (if list_ex (\<lambda>c. email c = form_customer_email f) (records (customers_file st))
       then customers_file st
       else Stored (records (customers_file st) @ [make_customer clk f]))"
    by auto
  then show ?thesis by (auto simp: list_ex_iff make_customer_def)
qed

lemma example_confirmed:
  assumes "customers_file st = Absent \<or> customers_file st = Stored cs"
  shows "\<exists>shown st'. submit_booking example_clock example_form default_rooms st = Inr (shown, st') \<and>
           booking_confirmed shown"
proof -
  have rt: "form_room_type example_form \<noteq> []" by (simp add: example_form_def)
  have sel: "select_room default_rooms (form_room_type example_form) = Some (default_rooms ! 0)"
    using example_select by (simp add: example_form_def)
  show ?thesis
    unfolding submit_booking_confirmed [OF example_form_valid sel rt]
    by (simp add: booking_confirmed_def is_success_def)
qed

theorem submit_booking_customer_record_witness:
  "(\<exists>shown st'. submit_booking example_clock example_form default_rooms fresh_store = Inr (shown, st') \<and>
      booking_confirmed shown \<and>
      records (customers_file st') =
        [\<lparr>name = str ''Asha Rao'', email = str ''a@b.co'', phone = str ''9876543210'',
          address = str ''12 Lake Road'', registration_date = ''2025-03-14 12:00:00''\<rparr>]) \<and>
   (\<exists>shown st'. submit_booking example_clock example_form default_rooms returning_store = Inr (shown, st') \<and>
      booking_confirmed shown \<and> customers_file st' = Stored [known_customer])"
proof -
  have iso: "strftime_iso (now_registration example_clock) = ''2025-03-14 12:00:00''"
    by (simp add: strftime_iso_def example_clock_def noon_def pad2_def pad4_def digit_def)
  obtain shown1 st1 where 1:
    "submit_booking example_clock example_form default_rooms fresh_store = Inr (shown1, st1)"
    "booking_confirmed shown1"
    using example_confirmed [of fresh_store] by (auto simp: fresh_store_def)
  obtain shown2 st2 where 2:
    "submit_booking example_clock example_form default_rooms returning_store = Inr (shown2, st2)"
    "booking_confirmed shown2"
    using example_confirmed [of returning_store "[known_customer]"]
    by (auto simp: returning_store_def)
  have a: "records (customers_file fresh_store) = []"
    by (simp add: fresh_store_def records_def load_data_def os_path_exists_def)
  have b: "records (customers_file returning_store) = [known_customer]"
    "customers_file returning_store = Stored [known_customer]"
    by (simp_all add: returning_store_def)
  from submit_booking_customer_record [OF 1] have
    "records (customers_file st1) =
        [\<lparr>name = str ''Asha Rao'', email = str ''a@b.co'', phone = str ''9876543210'',
          address = str ''12 Lake Road'', registration_date = ''2025-03-14 12:00:00''\<rparr>]"
    by (simp add: a iso example_form_def)
  moreover from submit_booking_customer_record [OF 2] have "customers_file st2 = Stored [known_customer]"
    by (simp add: b known_customer_def example_form_def)
  ultimately show ?thesis using 1 2 by blast
qed

text \<open>
  Claim C10. On every confirmed booking, the persisted rooms are the rooms of the snapshot,
  in the same order, where exactly the records whose \<open>room_number\<close> is that of the
  selected room have their \<open>status\<close> set to Occupied: every other record is identical,
  and no record changes its number, type, price or capacity. The bookings collection is
  the previous one followed by one new booking.
\<close>

theorem submit_booking_frame:
  assumes "submit_booking clk f rooms st = Inr (shown, st')" and "booking_confirmed shown"
  shows "\<exists>sel b. select_room rooms (form_room_type f) = Some sel \<and>
     length (records (rooms_file st')) = length rooms \<and>
     (\<forall>i < length rooms.
        room_number (records (rooms_file st') ! i) = room_number (rooms ! i) \<and>
        room_type (records (rooms_file st') ! i) = room_type (rooms ! i) \<and>
        price (records (rooms_file st') ! i) = price (rooms ! i) \<and>
        capacity (records (rooms_file st') ! i) = capacity (rooms ! i) \<and>
        (if room_number (rooms ! i) = room_number sel
         then records (rooms_file st') ! i = (rooms ! i)\<lparr>status := ''Occupied''\<rparr>
         else records (rooms_file st') ! i = rooms ! i)) \<and>
     records (bookings_file st') = records (bookings_file st) @ [b]"
proof -
  from assms obtain sel where sel: "validations_pass f"
      "select_room rooms (form_room_type f) = Some sel" "form_room_type f \<noteq> []"
    by (rule confirmed_path)
  from submit_booking_confirmed [OF this, of clk st] assms(1)
  have r: "rooms_file st' = Stored (occupy rooms sel)"
    and b: "bookings_file st' = Stored (records (bookings_file st) @ [new_booking clk f sel])"
    by auto
  have "records (rooms_file st') ! i = 
        (if room_number (rooms ! i) = room_number sel then (rooms ! i)\<lparr>status := ''Occupied''\<rparr>
         else rooms ! i)" if "i < length rooms" for i
    using that by (simp add: r occupy_nth)
  then have "\<forall>i < length rooms.
        room_number (records (rooms_file st') ! i) = room_number (rooms ! i) \<and>
        room_type (records (rooms_file st') ! i) = room_type (rooms ! i) \<and>
        price (records (rooms_file st') ! i) = price (rooms ! i) \<and>
        capacity (records (rooms_file st') ! i) = capacity (rooms ! i) \<and>
        (if room_number (rooms ! i) = room_number sel
         then records (rooms_file st') ! i = (rooms ! i)\<lparr>status := ''Occupied''\<rparr>
         else records (rooms_file st') ! i = rooms ! i)"
    by simp
  moreover have "length (records (rooms_file st')) = length rooms" by (simp add: r occupy_length)
  moreover have "records (bookings_file st') = records (bookings_file st) @ [new_booking clk f sel]"
    by (simp add: b)
  ultimately show ?thesis using sel(2) by blast
qed

lemma fresh_bookings: "records (bookings_file fresh_store) = []"
  by (simp add: fresh_store_def records_def load_data_def os_path_exists_def)

theorem submit_booking_frame_witness:
  "\<exists>shown st' b. submit_booking example_clock example_form default_rooms fresh_store = Inr (shown, st') \<and>
     booking_confirmed shown \<and>
     records (rooms_file st') = (default_rooms ! 0)\<lparr>status := ''Occupied''\<rparr> # tl default_rooms \<and>
     records (bookings_file st') = [b]"
proof -
  obtain shown st' where 1:
    "submit_booking example_clock example_form default_rooms fresh_store = Inr (shown, st')"
    "booking_confirmed shown"
    using example_confirmed [of fresh_store] by (auto simp: fresh_store_def)
  from submit_booking_frame [OF 1] obtain sel b where 2:
    "select_room default_rooms (form_room_type example_form) = Some sel"
    "length (records (rooms_file st')) = length default_rooms"
    "\<forall>i < length default_rooms.
        (if room_number (default_rooms ! i) = room_number sel
         then records (rooms_file st') ! i = (default_rooms ! i)\<lparr>status := ''Occupied''\<rparr>
         else records (rooms_file st') ! i = default_rooms ! i)"
    "records (bookings_file st') = records (bookings_file fresh_store) @ [b]"
    by blast
  have sel: "sel = default_rooms ! 0"
    using 2(1) example_select by (simp add: example_form_def)
  have "records (rooms_file st') = (default_rooms ! 0)\<lparr>status := ''Occupied''\<rparr> # tl default_rooms"
  proof (rule nth_equalityI)
    show "length (records (rooms_file st')) =
        length ((default_rooms ! 0)\<lparr>status := ''Occupied''\<rparr> # tl default_rooms)"
      using 2(2) by (simp add: default_rooms_def)
  next
    fix i assume "i < length (records (rooms_file st'))"
    then have i: "i < 7" using 2(2) by (simp add: default_rooms_def)
    then have "i = 0 \<or> i = 1 \<or> i = 2 \<or> i = 3 \<or> i = 4 \<or> i = 5 \<or> i = 6" by linarith
    moreover have "i < length default_rooms" using i by (simp add: default_rooms_def)
    ultimately show "records (rooms_file st') ! i =
        ((default_rooms ! 0)\<lparr>status := ''Occupied''\<rparr> # tl default_rooms) ! i"
      using 2(3) by (auto simp: sel default_rooms_def)
  qed
  then show ?thesis using 1 2(4) by (auto simp: fresh_bookings)
qed

lemma new_booking_fields:
  "nights (new_booking clk f sel) = days_between (form_check_in f) (form_check_out f)"
  "total_amount (new_booking clk f sel) =
     exact_amount (form_room_type f) (days_between (form_check_in f) (form_check_out f))
       (Rep_guest_count (form_guests f))"
  "booking_room_number (new_booking clk f sel) = room_number sel"
  "booking_id (new_booking clk f sel) = ''BK'' @ strftime_compact (now_booking_id clk)"
  by (simp_all add: new_booking_def make_booking_def Let_def)

lemma room_types_nonempty: "rt \<in> set room_types \<Longrightarrow> rt \<noteq> []"
  by (auto simp: room_types_def)

lemma well_typed_room:
  assumes "well_typed rooms" and "r \<in> set rooms"
  shows "room_type r \<in> set room_types"
  using assms by (simp add: well_typed_def list_all_iff)

lemma well_typed_default: "well_typed default_rooms"
  by (simp add: well_typed_def default_rooms_def room_types_def)

text \<open>The status update keeps the types: the rooms that a booking persists are well typed.\<close>

lemma well_typed_occupy: "well_typed (occupy rooms sel) = well_typed rooms"
  by (induction rooms) (simp_all add: well_typed_def occupy_def)

text \<open>
  Claim C2. When the four checks pass and the rooms snapshot (a rooms collection, so one
  whose room types are among the four that the program writes) holds an available room of
  the requested type, the submission is confirmed: the selected room is available and of
  that type, its record in the persisted rooms has status Occupied, the bookings
  collection grows by exactly one booking, whose \<open>nights\<close> is the number of days from
  check-in to check-out and whose \<open>total_amount\<close> is what \<^verbatim>\<open>calculate_booking_amount\<close>
  returns for the room type, these nights and the guests.
\<close>

theorem submit_booking_books_room:
  assumes "validations_pass f" and "well_typed rooms"
    and "r \<in> set rooms" and "room_type r = form_room_type f" and "status r = ''Available''"
  shows "\<exists>sel amount shown st' b i.
      select_room rooms (form_room_type f) = Some sel \<and>
      room_type sel = form_room_type f \<and> status sel = ''Available'' \<and>
      calculate_booking_amount (form_room_type f)
        (days_between (form_check_in f) (form_check_out f)) (Rep_guest_count (form_guests f)) = Inr amount \<and>
      submit_booking clk f rooms st = Inr (shown, st') \<and> booking_confirmed shown \<and>
      i < length rooms \<and> rooms ! i = sel \<and>
      length (records (rooms_file st')) = length rooms \<and>
      records (rooms_file st') ! i = sel\<lparr>status := ''Occupied''\<rparr> \<and>
      records (bookings_file st') = records (bookings_file st) @ [b] \<and>
      nights b = days_between (form_check_in f) (form_check_out f) \<and>
      total_amount b = amount \<and>
      booking_room_number b = room_number sel"
proof -
  have "form_room_type f \<in> set room_types"
    using well_typed_room [OF assms(2,3)] assms(4) by simp
  then have rt: "form_room_type f \<noteq> []" by (rule room_types_nonempty)
  obtain sel where sel: "select_room rooms (form_room_type f) = Some sel"
    using select_room_exists [OF assms(3-5)] by blast
  note S = select_room_Some [OF sel]
  obtain i where i: "i < length rooms" "rooms ! i = sel"
    using S(1) by (auto simp: in_set_conv_nth)
  have n: "0 < days_between (form_check_in f) (form_check_out f)"
    using assms(1) by (simp add: validations_pass_def dates_ordered_def days_between_def)
  note A = form_amount [OF n, of "form_room_type f" "form_guests f"]
  note R = submit_booking_confirmed [OF assms(1) sel rt, of clk st]
  define st' where "st' = st\<lparr>bookings_file := Stored (records (bookings_file st) @ [new_booking clk f sel]),
             rooms_file := Stored (occupy rooms sel),
             customers_file :=
               (if list_ex (\<lambda>c. email c = form_customer_email f) (records (customers_file st))
                then customers_file st
                else Stored (records (customers_file st) @ [make_customer clk f]))\<rparr>"
  define shown where "shown = preview_shown f @ load_shown (bookings_file st) @ load_shown (customers_file st) @
            [Success (''Booking confirmed! Booking ID: '' @ booking_id (new_booking clk f sel)), Balloons]"
  have 1: "submit_booking clk f rooms st = Inr (shown, st')"
    unfolding R shown_def st'_def ..
  have 2: "booking_confirmed shown"
    by (simp add: shown_def booking_confirmed_def is_success_def)
  have 3: "length (records (rooms_file st')) = length rooms"
    by (simp add: st'_def occupy_length)
  have 4: "records (rooms_file st') ! i = sel\<lparr>status := ''Occupied''\<rparr>"
    using i by (simp add: st'_def occupy_nth)
  have 5: "records (bookings_file st') = records (bookings_file st) @ [new_booking clk f sel]"
    by (simp add: st'_def)
  show ?thesis
    using sel S(2,3) A 1 2 i 3 4 5 new_booking_fields(1-3) [of clk f sel] by blast
qed

lemma example_amount:
  "exact_amount ''Standard'' 1 2 = PyInt 2500"
  by (simp add: exact_amount_def undiscounted_def spec_base_price_def)

theorem submit_booking_books_room_witness:
  "\<exists>shown st' b. submit_booking example_clock example_form default_rooms fresh_store = Inr (shown, st') \<and>
     booking_confirmed shown \<and>
     records (rooms_file st') ! 0 = (default_rooms ! 0)\<lparr>status := ''Occupied''\<rparr> \<and>
     records (bookings_file st') = [b] \<and> nights b = 1 \<and> total_amount b = PyInt 2500 \<and>
     booking_room_number b = ''101''"
proof -
  have r: "default_rooms ! 0 \<in> set default_rooms"
    "room_type (default_rooms ! 0) = form_room_type example_form"
    "status (default_rooms ! 0) = ''Available''"
    by (simp_all add: default_rooms_def example_form_def)
  have n: "days_between (form_check_in example_form) (form_check_out example_form) = 1"
    by (simp add: days_between_def example_form_def example_dates)
  have g: "Rep_guest_count (form_guests example_form) = 2"
    by (simp add: example_form_def example_guests)
  have t: "form_room_type example_form = ''Standard''" by (simp add: example_form_def)
  have a: "calculate_booking_amount ''Standard'' 1 2 = Inr (PyInt 2500)"
    using form_amount [of "form_check_in example_form" "form_check_out example_form" "''Standard''"
        "form_guests example_form"]
    by (simp add: n g example_amount)
  from submit_booking_books_room [OF example_form_valid well_typed_default r, of example_clock fresh_store]
  obtain sel amount shown st' b i where w:
      "select_room default_rooms (form_room_type example_form) = Some sel"
      "calculate_booking_amount (form_room_type example_form)
        (days_between (form_check_in example_form) (form_check_out example_form))
        (Rep_guest_count (form_guests example_form)) = Inr amount"
      "submit_booking example_clock example_form default_rooms fresh_store = Inr (shown, st')"
      "booking_confirmed shown"
      "i < length default_rooms" "default_rooms ! i = sel"
      "records (rooms_file st') ! i = sel\<lparr>status := ''Occupied''\<rparr>"
      "records (bookings_file st') = records (bookings_file fresh_store) @ [b]"
      "nights b = days_between (form_check_in example_form) (form_check_out example_form)"
      "total_amount b = amount"
      "booking_room_number b = room_number sel"
    by blast
  have sel: "sel = default_rooms ! 0" using w(1) example_select by (simp add: t)
  have "i = 0"
  proof -
    have "i < 7" using w(5) by (simp add: default_rooms_def)
    then have "i = 0 \<or> i = 1 \<or> i = 2 \<or> i = 3 \<or> i = 4 \<or> i = 5 \<or> i = 6" by linarith
    then show ?thesis using w(6) by (auto simp: sel default_rooms_def)
  qed
  moreover have "amount = PyInt 2500" using w(2) a by (simp add: t n g)
  moreover have "room_number sel = ''101''" by (simp add: sel default_rooms_def)
  ultimately show ?thesis using w(3,4,7,8,9,10,11) by (auto simp: sel n fresh_bookings)
qed

subsection \<open>Booking ids\<close>

lemma div_mod_10_eq:
  assumes "(x::nat) div 10 = y div 10" and "x mod 10 = y mod 10"
  shows "x = y"
proof -
  have "x = x div 10 * 10 + x mod 10" by simp
  also have "\<dots> = y div 10 * 10 + y mod 10" using assms by simp
  also have "\<dots> = y" by simp
  finally show ?thesis .
qed

lemma two_digits_eq:
  assumes "(a::nat) < 100" and "b < 100" and "(a div 10) mod 10 = (b div 10) mod 10"
    and "a mod 10 = b mod 10"
  shows "a = b"
proof -
  have "a div 10 < 10" "b div 10 < 10" using assms(1,2) by simp_all
  then have "a div 10 = b div 10" using assms(3) by simp
  then show ?thesis using assms(4) by (rule div_mod_10_eq)
qed

lemma four_digits_eq:
  assumes "(a::nat) < 10000" and "b < 10000"
    and "(a div 1000) mod 10 = (b div 1000) mod 10" and "(a div 100) mod 10 = (b div 100) mod 10"
    and "(a div 10) mod 10 = (b div 10) mod 10" and "a mod 10 = b mod 10"
  shows "a = b"
proof -
  have "a div 1000 < 10" "b div 1000 < 10" using assms(1,2) by simp_all
  then have 3: "a div 1000 = b div 1000" using assms(3) by simp
  have "a div 100 div 10 = a div 1000" "b div 100 div 10 = b div 1000"
    by (simp_all add: div_mult2_eq [symmetric])
  then have "a div 100 div 10 = b div 100 div 10" using 3 by simp
  then have 2: "a div 100 = b div 100" using assms(4) by (rule div_mod_10_eq)
  have "a div 10 div 10 = a div 100" "b div 10 div 10 = b div 100"
    by (simp_all add: div_mult2_eq [symmetric])
  then have "a div 10 div 10 = b div 10 div 10" using 2 by simp
  then have 1: "a div 10 = b div 10" using assms(5) by (rule div_mod_10_eq)
  then show ?thesis using assms(6) by (rule div_mod_10_eq)
qed

lemma digit_eq_iff: "digit a = digit b \<longleftrightarrow> a mod 10 = b mod 10"
proof -
  have "distinct ''0123456789''" by simp
  moreover have "a mod 10 < length ''0123456789''" "b mod 10 < length ''0123456789''" by simp_all
  ultimately show ?thesis unfolding digit_def by (rule nth_eq_iff_index_eq)
qed

lemma pad2_eq_iff:
  assumes "a < 100" and "b < 100"
  shows "pad2 a = pad2 b \<longleftrightarrow> a = b"
proof
  assume "pad2 a = pad2 b"
  then have "(a div 10) mod 10 = (b div 10) mod 10" "a mod 10 = b mod 10"
    by (simp_all add: pad2_def digit_eq_iff)
  with assms show "a = b" by (rule two_digits_eq)
qed simp

lemma pad4_eq_iff:
  assumes "a < 10000" and "b < 10000"
  shows "pad4 a = pad4 b \<longleftrightarrow> a = b"
proof
  assume "pad4 a = pad4 b"
  then have "(a div 1000) mod 10 = (b div 1000) mod 10" "(a div 100) mod 10 = (b div 100) mod 10"
    "(a div 10) mod 10 = (b div 10) mod 10" "a mod 10 = b mod 10"
    by (simp_all add: pad4_def digit_eq_iff)
  with assms show "a = b" by (rule four_digits_eq)
qed simp

lemma length_pad: "length (pad2 n) = 2" "length (pad4 n) = 4"
  by (simp_all add: pad2_def pad4_def)

lemma strftime_compact_eq_iff:
  assumes "valid_datetime t" and "valid_datetime u"
  shows "strftime_compact t = strftime_compact u \<longleftrightarrow> same_second t u"
proof -
  have "strftime_compact t = strftime_compact u \<longleftrightarrow>
      pad4 (year t) = pad4 (year u) \<and> pad2 (month t) = pad2 (month u) \<and>
      pad2 (day t) = pad2 (day u) \<and> pad2 (hour t) = pad2 (hour u) \<and>
      pad2 (minute t) = pad2 (minute u) \<and> pad2 (second t) = pad2 (second u)"
    by (simp add: strftime_compact_def length_pad)
  also have "\<dots> \<longleftrightarrow> same_second t u"
    using assms by (simp add: valid_datetime_def same_second_def pad2_eq_iff pad4_eq_iff)
  finally show ?thesis .
qed

text \<open>
  Claim C4, as amended. The id of a booking is \<^verbatim>\<open>BK\<close> followed by the clock reading of the
  submission, formatted as \<^verbatim>\<open>%Y%m%d%H%M%S\<close>. So two confirmed submissions (with valid clock
  readings) create bookings with the same id exactly when their readings agree in year,
  month, day, hour, minute and second: submissions in different seconds get distinct ids.
\<close>

theorem booking_id_by_second:
  assumes "submit_booking clk1 f1 rooms1 st1 = Inr (shown1, st1')" and "booking_confirmed shown1"
    and "submit_booking clk2 f2 rooms2 st2 = Inr (shown2, st2')" and "booking_confirmed shown2"
    and "valid_datetime (now_booking_id clk1)" and "valid_datetime (now_booking_id clk2)"
  shows "\<exists>b1 b2.
     records (bookings_file st1') = records (bookings_file st1) @ [b1] \<and>
     records (bookings_file st2') = records (bookings_file st2) @ [b2] \<and>
     booking_id b1 = ''BK'' @ strftime_compact (now_booking_id clk1) \<and>
     booking_id b2 = ''BK'' @ strftime_compact (now_booking_id clk2) \<and>
     (booking_id b1 = booking_id b2 \<longleftrightarrow> same_second (now_booking_id clk1) (now_booking_id clk2))"
proof -
  from assms(1,2) obtain sel1 where s1: "validations_pass f1"
      "select_room rooms1 (form_room_type f1) = Some sel1" "form_room_type f1 \<noteq> []"
    by (rule confirmed_path)
  from assms(3,4) obtain sel2 where s2: "validations_pass f2"
      "select_room rooms2 (form_room_type f2) = Some sel2" "form_room_type f2 \<noteq> []"
    by (rule confirmed_path)
  from submit_booking_confirmed [OF s1, of clk1 st1] assms(1)
  have b1: "records (bookings_file st1') = records (bookings_file st1) @ [new_booking clk1 f1 sel1]"
    by auto
  from submit_booking_confirmed [OF s2, of clk2 st2] assms(3)
  have b2: "records (bookings_file st2') = records (bookings_file st2) @ [new_booking clk2 f2 sel2]"
    by auto
  have "booking_id (new_booking clk1 f1 sel1) = booking_id (new_booking clk2 f2 sel2) \<longleftrightarrow>
      same_second (now_booking_id clk1) (now_booking_id clk2)"
    using strftime_compact_eq_iff [OF assms(5,6)] by (simp add: new_booking_fields)
  with b1 b2 show ?thesis using new_booking_fields(4) by blast
qed

lemma second_select:
  "select_room (occupy default_rooms (default_rooms ! 0)) ''Standard'' = Some (default_rooms ! 1)"
  by (simp add: select_room_def available_rooms_def occupy_def default_rooms_def)

lemma first_booking:
  "\<exists>shown. submit_booking example_clock example_form default_rooms fresh_store = Inr (shown, booked_store) \<and>
     booking_confirmed shown"
proof -
  have rt: "form_room_type example_form \<noteq> []" by (simp add: example_form_def)
  have sel: "select_room default_rooms (form_room_type example_form) = Some (default_rooms ! 0)"
    using example_select by (simp add: example_form_def)
  have c: "records (customers_file fresh_store) = []"
    by (simp add: fresh_store_def records_def load_data_def os_path_exists_def)
  have "fresh_store
      \<lparr>bookings_file := Stored [new_booking example_clock example_form (default_rooms ! 0)],
       rooms_file := Stored (occupy default_rooms (default_rooms ! 0)),
       customers_file := Stored [make_customer example_clock example_form]\<rparr> = booked_store"
    by (simp add: booked_store_def fresh_store_def)
  then show ?thesis
    unfolding submit_booking_confirmed [OF example_form_valid sel rt]
    by (simp add: c fresh_bookings booking_confirmed_def is_success_def)
qed

lemma second_booking:
  "\<exists>shown st'. submit_booking clk example_form (records (rooms_file booked_store)) booked_store =
      Inr (shown, st') \<and> booking_confirmed shown"
proof -
  have rt: "form_room_type example_form \<noteq> []" by (simp add: example_form_def)
  have sel: "select_room (records (rooms_file booked_store)) (form_room_type example_form) =
      Some (default_rooms ! 1)"
    using second_select by (simp add: booked_store_def example_form_def)
  show ?thesis
    unfolding submit_booking_confirmed [OF example_form_valid sel rt]
    by (simp add: booking_confirmed_def is_success_def)
qed

theorem booking_id_by_second_witness:
  "\<exists>shown1 shown2 st2 b1 b2.
     submit_booking example_clock example_form default_rooms fresh_store = Inr (shown1, booked_store) \<and>
     booking_confirmed shown1 \<and>
     submit_booking next_clock example_form (records (rooms_file booked_store)) booked_store =
       Inr (shown2, st2) \<and>
     booking_confirmed shown2 \<and>
     records (bookings_file st2) = [b1, b2] \<and>
     booking_id b1 = ''BK20250314120000'' \<and> booking_id b2 = ''BK20250314120001'' \<and>
     booking_id b1 \<noteq> booking_id b2"
proof -
  obtain shown1 where 1:
    "submit_booking example_clock example_form default_rooms fresh_store = Inr (shown1, booked_store)"
    "booking_confirmed shown1"
    using first_booking by blast
  obtain shown2 st2 where 2:
    "submit_booking next_clock example_form (records (rooms_file booked_store)) booked_store =
       Inr (shown2, st2)"
    "booking_confirmed shown2"
    using second_booking [of next_clock] by blast
  have v1: "valid_datetime (now_booking_id example_clock)"
    by (simp add: valid_datetime_def example_clock_def noon_def)
  have v2: "valid_datetime (now_booking_id next_clock)"
    by (simp add: valid_datetime_def next_clock_def one_past_noon_def noon_def)
  have s1: "strftime_compact (now_booking_id example_clock) = ''20250314120000''"
    by (simp add: strftime_compact_def example_clock_def noon_def pad2_def pad4_def digit_def)
  have s2: "strftime_compact (now_booking_id next_clock) = ''20250314120001''"
    by (simp add: strftime_compact_def next_clock_def one_past_noon_def noon_def pad2_def pad4_def
        digit_def)
  have differ: "\<not> same_second (now_booking_id example_clock) (now_booking_id next_clock)"
    by (simp add: same_second_def example_clock_def next_clock_def one_past_noon_def noon_def)
  from booking_id_by_second [OF 1 2 v1 v2] obtain b1 b2 where b:
    "records (bookings_file booked_store) = records (bookings_file fresh_store) @ [b1]"
    "records (bookings_file st2) = records (bookings_file booked_store) @ [b2]"
    "booking_id b1 = ''BK'' @ strftime_compact (now_booking_id example_clock)"
    "booking_id b2 = ''BK'' @ strftime_compact (now_booking_id next_clock)"
    "booking_id b1 = booking_id b2 \<longleftrightarrow> same_second (now_booking_id example_clock) (now_booking_id next_clock)"
    by blast
  have "records (bookings_file st2) = [b1, b2]" using b(1,2) by (simp add: fresh_bookings)
  moreover have "booking_id b1 = ''BK20250314120000''" using b(3) by (simp add: s1)
  moreover have "booking_id b2 = ''BK20250314120001''" using b(4) by (simp add: s2)
  moreover have "booking_id b1 \<noteq> booking_id b2" using b(5) differ by simp
  ultimately show ?thesis using 1 2 by blast
qed

text \<open>
  The claim as stated fails: two submissions in rapid succession, half a second apart,
  book rooms 101 and 102, and the bookings collection then holds two bookings with the
  same id.
\<close>

theorem booking_id_same_second_counterexample:
  "\<exists>shown1 st1 shown2 st2 b1 b2.
     submit_booking example_clock example_form default_rooms fresh_store = Inr (shown1, st1) \<and>
     booking_confirmed shown1 \<and>
     submit_booking later_clock example_form (records (rooms_file st1)) st1 = Inr (shown2, st2) \<and>
     booking_confirmed shown2 \<and>
     records (bookings_file st2) = [b1, b2] \<and>
     booking_id b1 = booking_id b2 \<and>
     booking_room_number b1 \<noteq> booking_room_number b2 \<and>
     now_booking_id example_clock \<noteq> now_booking_id later_clock"
proof -
  have rt: "form_room_type example_form \<noteq> []" by (simp add: example_form_def)
  have sel1: "select_room default_rooms (form_room_type example_form) = Some (default_rooms ! 0)"
    using example_select by (simp add: example_form_def)
  define st1 where "st1 = fresh_store
      \<lparr>bookings_file := Stored [new_booking example_clock example_form (default_rooms ! 0)],
       rooms_file := Stored (occupy default_rooms (default_rooms ! 0)),
       customers_file := Stored [make_customer example_clock example_form]\<rparr>"
  define shown1 where "shown1 = preview_shown example_form @ load_shown (bookings_file fresh_store) @
      load_shown (customers_file fresh_store) @
      [Success (''Booking confirmed! Booking ID: '' @
         booking_id (new_booking example_clock example_form (default_rooms ! 0))), Balloons]"
  have c: "records (customers_file fresh_store) = []"
    by (simp add: fresh_store_def records_def load_data_def os_path_exists_def)
  have 1: "submit_booking example_clock example_form default_rooms fresh_store = Inr (shown1, st1)"
    unfolding submit_booking_confirmed [OF example_form_valid sel1 rt]
    by (simp add: shown1_def st1_def c fresh_bookings)
  have c1: "booking_confirmed shown1"
    by (simp add: shown1_def booking_confirmed_def is_success_def)
  have r1: "records (rooms_file st1) = occupy default_rooms (default_rooms ! 0)"
    by (simp add: st1_def)
  have sel2: "select_room (records (rooms_file st1)) (form_room_type example_form) = Some (default_rooms ! 1)"
    using second_select by (simp add: r1 example_form_def)
  define st2 where "st2 = st1
      \<lparr>bookings_file := Stored (records (bookings_file st1) @
           [new_booking later_clock example_form (default_rooms ! 1)]),
       rooms_file := Stored (occupy (records (rooms_file st1)) (default_rooms ! 1)),
       customers_file :=
         (if list_ex (\<lambda>c. email c = form_customer_email example_form) (records (customers_file st1))
          then customers_file st1
          else Stored (records (customers_file st1) @ [make_customer later_clock example_form]))\<rparr>"
  define shown2 where "shown2 = preview_shown example_form @ load_shown (bookings_file st1) @
      load_shown (customers_file st1) @
      [Success (''Booking confirmed! Booking ID: '' @
         booking_id (new_booking later_clock example_form (default_rooms ! 1))), Balloons]"
  have 2: "submit_booking later_clock example_form (records (rooms_file st1)) st1 = Inr (shown2, st2)"
    unfolding submit_booking_confirmed [OF example_form_valid sel2 rt] shown2_def st2_def ..
  have c2: "booking_confirmed shown2"
    by (simp add: shown2_def booking_confirmed_def is_success_def)
  have b: "records (bookings_file st2) =
      [new_booking example_clock example_form (default_rooms ! 0),
       new_booking later_clock example_form (default_rooms ! 1)]"
    by (simp add: st2_def st1_def)
  have same: "strftime_compact (now_booking_id example_clock) = strftime_compact (now_booking_id later_clock)"
    by (simp add: strftime_compact_def example_clock_def later_clock_def half_past_noon_def noon_def)
  have ids: "booking_id (new_booking example_clock example_form (default_rooms ! 0)) =
      booking_id (new_booking later_clock example_form (default_rooms ! 1))"
    by (simp add: new_booking_fields same)
  have numbers: "booking_room_number (new_booking example_clock example_form (default_rooms ! 0)) \<noteq>
      booking_room_number (new_booking later_clock example_form (default_rooms ! 1))"
    by (simp add: new_booking_fields default_rooms_def)
  have clocks: "now_booking_id example_clock \<noteq> now_booking_id later_clock"
    by (simp add: example_clock_def later_clock_def half_past_noon_def noon_def)
  show ?thesis using 1 c1 2 c2 b ids numbers clocks by blast
qed

subsection \<open>Room selection\<close>



subsection \<open>The page function\<close>

lemma booking_system_eq:
  "booking_system clk f submitted st =
     (if available_rooms (records (rooms_file st)) = []
      then Inr (load_shown (rooms_file st) @ [Error ''No rooms available for booking!''], st)
      else if submitted
      then bind_exn (submit_booking clk f (records (rooms_file st)) st)
             (\<lambda>(shown, st'). Inr (load_shown (rooms_file st) @ shown, st'))
      else Inr (load_shown (rooms_file st) @ preview_shown f, st))"
  by (simp add: booking_system_def load_data_eq bind_exn_def price_preview_eq Let_def)

lemma load_shown_cases: "load_shown f = [] \<or> load_shown f = [Error ''Error loading data'']"
  by (cases f) (simp_all add: load_shown_def load_data_def os_path_exists_def json_load_def bind_exn_def)

text \<open>
  The page function stops before the form when the loaded rooms hold no available room:
  it shows the error and writes nothing, whether or not the button was pressed.
\<close>

theorem booking_system_no_rooms:
  assumes "available_rooms (records (rooms_file st)) = []"
  shows "\<exists>shown. booking_system clk f submitted st = Inr (shown, st) \<and>
           Error ''No rooms available for booking!'' \<in> set shown \<and> \<not> booking_confirmed shown"
proof -
  have "\<not> list_ex is_success (load_shown (rooms_file st) @ [Error ''No rooms available for booking!''])"
    using load_shown_no_success [of "rooms_file st"] by (simp add: is_success_def)
  then show ?thesis using assms by (simp add: booking_system_eq booking_confirmed_def)
qed

theorem booking_system_no_rooms_witness:
  "\<exists>shown. booking_system example_clock example_form True (fresh_store\<lparr>rooms_file := Absent\<rparr>) =
      Inr (shown, fresh_store\<lparr>rooms_file := Absent\<rparr>) \<and>
     Error ''No rooms available for booking!'' \<in> set shown \<and> \<not> booking_confirmed shown"
proof -
  have "available_rooms (records (rooms_file (fresh_store\<lparr>rooms_file := Absent\<rparr>))) = []"
    by (simp add: records_def load_data_def os_path_exists_def available_rooms_def)
  then show ?thesis by (rule booking_system_no_rooms)
qed

text \<open>
  On the page function, where the snapshot is the rooms collection as loaded: a confirmed
  booking rewrites the rooms collection as the loaded one with the status of the records
  of the selected room number set to Occupied, and appends one booking.
\<close>

theorem booking_system_frame:
  assumes "booking_system clk f True st = Inr (shown, st')" and "booking_confirmed shown"
  shows "\<exists>sel b. select_room (records (rooms_file st)) (form_room_type f) = Some sel \<and>
     records (rooms_file st') =
       map (\<lambda>r. if room_number r = room_number sel then r\<lparr>status := ''Occupied''\<rparr> else r)
         (records (rooms_file st)) \<and>
     records (bookings_file st') = records (bookings_file st) @ [b]"
proof -
  define rooms where "rooms = records (rooms_file st)"
  have avail: "available_rooms rooms \<noteq> []"
  proof
    assume "available_rooms rooms = []"
    then have "shown = load_shown (rooms_file st) @ [Error ''No rooms available for booking!'']"
      using assms(1) by (auto simp: booking_system_eq rooms_def)
    then show False
      using assms(2) load_shown_no_success [of "rooms_file st"]
      by (simp add: booking_confirmed_def is_success_def)
  qed
  then obtain shown' where sub: "submit_booking clk f rooms st = Inr (shown', st')"
      and shown: "shown = load_shown (rooms_file st) @ shown'"
    using assms(1) unfolding booking_system_eq rooms_def [symmetric]
    by (cases "submit_booking clk f rooms st") (auto simp: bind_exn_def)
  have conf: "booking_confirmed shown'"
    using assms(2) load_shown_no_success [of "rooms_file st"]
    by (simp add: shown booking_confirmed_def)
  from sub conf obtain sel where sel: "validations_pass f"
      "select_room rooms (form_room_type f) = Some sel" "form_room_type f \<noteq> []"
    by (rule confirmed_path)
  from submit_booking_confirmed [OF sel, of clk st] sub
  have "rooms_file st' = Stored (occupy rooms sel)"
    and "bookings_file st' = Stored (records (bookings_file st) @ [new_booking clk f sel])"
    by auto
  then have "records (rooms_file st') =
       map (\<lambda>r. if room_number r = room_number sel then r\<lparr>status := ''Occupied''\<rparr> else r) rooms"
    and "records (bookings_file st') = records (bookings_file st) @ [new_booking clk f sel]"
    by (simp_all add: occupy_def)
  then show ?thesis using sel(2) unfolding rooms_def by blast
qed

theorem booking_system_frame_witness:
  "\<exists>shown st' b. booking_system example_clock example_form True fresh_store = Inr (shown, st') \<and>
     booking_confirmed shown \<and>
     records (rooms_file st') = (default_rooms ! 0)\<lparr>status := ''Occupied''\<rparr> # tl default_rooms \<and>
     records (bookings_file st') = [b]"
proof -
  have r: "records (rooms_file fresh_store) = default_rooms" by (simp add: fresh_store_def)
  have a: "available_rooms default_rooms \<noteq> []" by (simp add: available_rooms_def default_rooms_def)
  have l: "load_shown (rooms_file fresh_store) = []"
    by (simp add: fresh_store_def load_shown_def load_data_def os_path_exists_def json_load_def bind_exn_def)
  obtain shown st' where 1:
    "submit_booking example_clock example_form default_rooms fresh_store = Inr (shown, st')"
    "booking_confirmed shown"
    using example_confirmed [of fresh_store] by (auto simp: fresh_store_def)
  have 2: "booking_system example_clock example_form True fresh_store = Inr (shown, st')"
    using 1(1) a by (simp add: booking_system_eq r l bind_exn_def)
  from booking_system_frame [OF 2 1(2)] obtain sel b where 3:
    "select_room default_rooms (form_room_type example_form) = Some sel"
    "records (rooms_file st') =
       map (\<lambda>r. if room_number r = room_number sel then r\<lparr>status := ''Occupied''\<rparr> else r)
         default_rooms"
    "records (bookings_file st') = records (bookings_file fresh_store) @ [b]"
    unfolding r by blast
  have sel: "sel = default_rooms ! 0"
    using 3(1) example_select by (simp add: example_form_def)
  have "records (rooms_file st') = (default_rooms ! 0)\<lparr>status := ''Occupied''\<rparr> # tl default_rooms"
    unfolding 3(2) sel by (simp add: default_rooms_def)
  then show ?thesis using 2 1(2) 3(3) by (auto simp: fresh_bookings)
qed







end
